theory Spec2Isabelle
  imports Main "HOL-Library.Product_Lexorder"
begin

section \<open>The record store seen by the cleanup service\<close>

text \<open>
  \<^verbatim>\<open>DatabaseCleanupService\<close> talks to the store through three repository calls only:
  \<^verbatim>\<open>createQueryBuilder().orderBy("COALESCE(created_at, data_registro)", "ASC").take(n).getMany()\<close>,
  \<^verbatim>\<open>remove(rows)\<close> and \<^verbatim>\<open>count()\<close>. A row carries its primary key and the two
  timestamp columns named by the query; either column may be NULL.
\<close>

record row =
  row_id :: nat
  created_at :: "int option"
  data_registro :: "int option"

text \<open>Each repository call may throw; the three ways it can are the kinds of fault a table can have.\<close>

datatype fault = QueryFault | DeleteFault | CountFault

datatype db_error = QueryFailed | DeleteFailed | CountFailed

text \<open>
  Every call issued against the store is recorded, in order, so that statements such as
  "no delete is issued" or "the failed call is not repeated" can be read off the state.
\<close>

datatype db_call = OpGetMany string nat | OpRemove string "nat list" | OpCount string

text \<open>
  The data source itself is not part of the service: its tables, the list of entity
  metadata, which calls currently fail, and whether the SQL dialect sorts NULL before
  (SQLite, MySQL) or after (PostgreSQL) every value in ascending order are all parameters.
\<close>

record database =
  tables :: "string \<Rightarrow> row list"
  entityMetadatas :: "string list"
  faults :: "string \<Rightarrow> fault set"
  nulls_first :: bool
  calls :: "db_call list"

definition COALESCE :: "int option \<Rightarrow> int option \<Rightarrow> int option" where
  "COALESCE a b = (case a of Some v \<Rightarrow> Some v | None \<Rightarrow> b)"

definition recency_key :: "row \<Rightarrow> int option" where
  "recency_key r = COALESCE (created_at r) (data_registro r)"

text \<open>
  The position of a recency key in \<^verbatim>\<open>ORDER BY ... ASC\<close>: values by their size, NULL before
  or after all of them. Pairs are compared lexicographically.
\<close>

definition key_rank :: "bool \<Rightarrow> int option \<Rightarrow> nat \<times> int" where
  "key_rank nf k =
     (case k of
        None \<Rightarrow> (if nf then 0 else 2, 0)
      | Some v \<Rightarrow> (1, v))"

definition order_key :: "bool \<Rightarrow> row \<Rightarrow> nat \<times> int" where
  "order_key nf r = key_rank nf (recency_key r)"

text \<open>
  \<^verbatim>\<open>orderBy(...).take(n).getMany()\<close>: the first \<open>n\<close> rows in ascending key order. Rows
  with equal keys keep the order the table has them in (the sort is stable).
\<close>

definition repo_getMany :: "string \<Rightarrow> nat \<Rightarrow> database \<Rightarrow> (db_error + row list) \<times> database" where
  "repo_getMany t n d =
     (let d' = d\<lparr>calls := calls d @ [OpGetMany t n]\<rparr> in
      if QueryFault \<in> faults d t then (Inl QueryFailed, d')
      else (Inr (take n (sort_key (order_key (nulls_first d)) (tables d t))), d'))"

text \<open>
  \<^verbatim>\<open>remove(rows)\<close> deletes the given entities by primary key inside one transaction: when it
  throws, the table is as before.
\<close>

definition repo_remove :: "string \<Rightarrow> row list \<Rightarrow> database \<Rightarrow> (db_error + unit) \<times> database" where
  "repo_remove t rs d =
     (let d' = d\<lparr>calls := calls d @ [OpRemove t (map row_id rs)]\<rparr> in
      if DeleteFault \<in> faults d t then (Inl DeleteFailed, d')
      else (Inr (),
            d'\<lparr>tables := (tables d)(t := filter (\<lambda>r. row_id r \<notin> set (map row_id rs)) (tables d t))\<rparr>))"

definition repo_count :: "string \<Rightarrow> database \<Rightarrow> (db_error + nat) \<times> database" where
  "repo_count t d =
     (let d' = d\<lparr>calls := calls d @ [OpCount t]\<rparr> in
      if CountFault \<in> faults d t then (Inl CountFailed, d')
      else (Inr (length (tables d t)), d'))"

section \<open>LoggerService\<close>

text \<open>
  The logger prints a level, a timestamp and a message with its metadata. The model keeps
  the level and the message; each message of the cleanup service is a constructor that
  carries the metadata the source passes.
\<close>

datatype level = INFO | WARN | ERROR

datatype message =
    ServicoIniciado nat nat
  | LimiteAtingido string nat
  | RegistrosRemovidos string nat
  | ErroAoLimpar string db_error
  | TabelaExcedeuLimite string nat nat
  | EstadoVerificado string nat
  | ErroAoVerificar string db_error

type_synonym log_entry = "level \<times> message"

definition LoggerService_info :: "message \<Rightarrow> log_entry list \<Rightarrow> log_entry list" where
  "LoggerService_info m l = l @ [(INFO, m)]"

definition LoggerService_error :: "message \<Rightarrow> log_entry list \<Rightarrow> log_entry list" where
  "LoggerService_error m l = l @ [(ERROR, m)]"

definition LoggerService_warn :: "message \<Rightarrow> log_entry list \<Rightarrow> log_entry list" where
  "LoggerService_warn m l = l @ [(WARN, m)]"

fun message_table :: "message \<Rightarrow> string option" where
  "message_table (ServicoIniciado _ _) = None"
| "message_table (LimiteAtingido t _) = Some t"
| "message_table (RegistrosRemovidos t _) = Some t"
| "message_table (ErroAoLimpar t _) = Some t"
| "message_table (TabelaExcedeuLimite t _ _) = Some t"
| "message_table (EstadoVerificado t _) = Some t"
| "message_table (ErroAoVerificar t _) = Some t"

section \<open>DatabaseCleanupService\<close>

definition LIMITE_REGISTROS :: nat where
  "LIMITE_REGISTROS = 500"

definition REGISTROS_PARA_REMOVER :: nat where
  "REGISTROS_PARA_REMOVER = 250"

text \<open>
  The service owns \<open>tableCounters\<close>; the store and the log are the outside world it acts
  on. Every method returns the outcome (\<open>Inl\<close> an exception that escapes it, \<open>Inr\<close> a
  normal return) together with the state it leaves.
\<close>

record service =
  tableCounters :: "string \<rightharpoonup> nat"
  db :: database
  log :: "log_entry list"

definition constructor :: "database \<Rightarrow> service" where
  "constructor d =
     \<lparr>tableCounters = Map.empty, db = d,
      log = LoggerService_info (ServicoIniciado LIMITE_REGISTROS REGISTROS_PARA_REMOVER) []\<rparr>"

text \<open>The body of the \<^verbatim>\<open>try\<close> block of \<^verbatim>\<open>limparRegistrosAntigos\<close>.\<close>

definition limpar_try :: "string \<Rightarrow> service \<Rightarrow> (db_error + unit) \<times> service" where
  "limpar_try tableName s =
     (case repo_getMany tableName REGISTROS_PARA_REMOVER (db s) of
        (Inl e, d1) \<Rightarrow> (Inl e, s\<lparr>db := d1\<rparr>)
      | (Inr registrosAntigos, d1) \<Rightarrow>
          if length registrosAntigos > 0 then
            (case repo_remove tableName registrosAntigos d1 of
               (Inl e, d2) \<Rightarrow> (Inl e, s\<lparr>db := d2\<rparr>)
             | (Inr _, d2) \<Rightarrow>
                 (Inr (),
                  s\<lparr>db := d2,
                    log := LoggerService_info
                             (RegistrosRemovidos tableName (length registrosAntigos)) (log s)\<rparr>))
          else (Inr (), s\<lparr>db := d1\<rparr>))"

text \<open>The \<^verbatim>\<open>catch\<close> clause logs the error with the table name and swallows it.\<close>

definition limparRegistrosAntigos :: "string \<Rightarrow> service \<Rightarrow> (db_error + unit) \<times> service" where
  "limparRegistrosAntigos tableName s =
     (case limpar_try tableName s of
        (Inl e, s') \<Rightarrow> (Inr (), s'\<lparr>log := LoggerService_error (ErroAoLimpar tableName e) (log s')\<rparr>)
      | (Inr u, s') \<Rightarrow> (Inr u, s'))"

text \<open>
  \<^verbatim>\<open>afterInsert\<close> starts \<^verbatim>\<open>limparRegistrosAntigos\<close> without awaiting it and resets the
  counter at once. The cleanup never reads or writes \<open>tableCounters\<close> and the rest of the
  handler never touches the store, so with no other insert arriving before the cleanup has
  finished the two orders leave the same state; the model runs the cleanup to its end and
  then resets the counter. The outcome of the promise is dropped, as in the source.
\<close>

definition afterInsert :: "string \<Rightarrow> service \<Rightarrow> (db_error + unit) \<times> service" where
  "afterInsert tableName s =
     (let currentCount = (case tableCounters s tableName of None \<Rightarrow> 0 | Some c \<Rightarrow> c) + 1;
          s1 = s\<lparr>tableCounters := (tableCounters s)(tableName \<mapsto> currentCount)\<rparr>
      in if currentCount \<ge> LIMITE_REGISTROS then
           (let s2 = s1\<lparr>log := LoggerService_info (LimiteAtingido tableName currentCount) (log s1)\<rparr>;
                s3 = snd (limparRegistrosAntigos tableName s2)
            in (Inr (), s3\<lparr>tableCounters := (tableCounters s3)(tableName \<mapsto> 0)\<rparr>))
         else (Inr (), s1))"

text \<open>The body of the \<^verbatim>\<open>try\<close> block inside the loop of \<^verbatim>\<open>verificarEstadoAtual\<close>.\<close>

definition verificar_try :: "string \<Rightarrow> service \<Rightarrow> (db_error + unit) \<times> service" where
  "verificar_try tableName s =
     (case repo_count tableName (db s) of
        (Inl e, d1) \<Rightarrow> (Inl e, s\<lparr>db := d1\<rparr>)
      | (Inr count, d1) \<Rightarrow>
          (let s1 = s\<lparr>db := d1\<rparr>;
               (r, s2) =
                 (if count \<ge> LIMITE_REGISTROS then
                    limparRegistrosAntigos tableName
                      (s1\<lparr>log := LoggerService_warn
                                    (TabelaExcedeuLimite tableName count LIMITE_REGISTROS) (log s1)\<rparr>)
                  else (Inr (), s1))
           in case r of
                Inl e \<Rightarrow> (Inl e, s2)
              | Inr _ \<Rightarrow>
                  (Inr (),
                   s2\<lparr>tableCounters := (tableCounters s2)(tableName \<mapsto> count mod LIMITE_REGISTROS),
                      log := LoggerService_info (EstadoVerificado tableName count) (log s2)\<rparr>)))"

text \<open>One iteration of the loop: the \<^verbatim>\<open>try\<close> block and its \<^verbatim>\<open>catch\<close>.\<close>

definition verificar_entity :: "string \<Rightarrow> service \<Rightarrow> (db_error + unit) \<times> service" where
  "verificar_entity tableName s =
     (case verificar_try tableName s of
        (Inl e, s') \<Rightarrow> (Inr (), s'\<lparr>log := LoggerService_error (ErroAoVerificar tableName e) (log s')\<rparr>)
      | (Inr u, s') \<Rightarrow> (Inr u, s'))"

fun verificar_loop :: "string list \<Rightarrow> service \<Rightarrow> (db_error + unit) \<times> service" where
  "verificar_loop [] s = (Inr (), s)"
| "verificar_loop (entity # entities) s =
     (case verificar_entity entity s of
        (Inl e, s') \<Rightarrow> (Inl e, s')
      | (Inr _, s') \<Rightarrow> verificar_loop entities s')"

definition verificarEstadoAtual :: "service \<Rightarrow> (db_error + unit) \<times> service" where
  "verificarEstadoAtual s = verificar_loop (entityMetadatas (db s)) s"

section \<open>Observations used by the properties\<close>

text \<open>The counter of a table as \<^verbatim>\<open>afterInsert\<close> reads it: \<^verbatim>\<open>tableCounters.get(t) || 0\<close>.\<close>

definition counter_of :: "service \<Rightarrow> string \<Rightarrow> nat" where
  "counter_of s t = (case tableCounters s t of None \<Rightarrow> 0 | Some c \<Rightarrow> c)"

text \<open>
  How often the eviction has been invoked for a table so far: each invocation issues the
  oldest-rows query exactly once, so the invocations are the recorded queries.
\<close>

definition evictions :: "string \<Rightarrow> service \<Rightarrow> nat" where
  "evictions t s = length (filter (\<lambda>c. c = OpGetMany t REGISTROS_PARA_REMOVER) (calls (db s)))"

definition removes :: "string \<Rightarrow> service \<Rightarrow> db_call list" where
  "removes t s = filter (\<lambda>c. case c of OpRemove t' _ \<Rightarrow> t' = t | _ \<Rightarrow> False) (calls (db s))"

definition counts :: "string \<Rightarrow> service \<Rightarrow> nat" where
  "counts t s = length (filter (\<lambda>c. c = OpCount t) (calls (db s)))"

definition errors_logged :: "service \<Rightarrow> log_entry list" where
  "errors_logged s = filter (\<lambda>e. fst e = ERROR) (log s)"

text \<open>Insert notifications delivered one at a time, each handled to its end before the next.\<close>

fun run_inserts :: "string list \<Rightarrow> service \<Rightarrow> service" where
  "run_inserts [] s = s"
| "run_inserts (t # ts) s = run_inserts ts (snd (afterInsert t s))"

text \<open>
  The number of inserts into \<open>t\<close> observed since the last insert on which an eviction of
  \<open>t\<close> was invoked, read off the store's call record while the notifications are replayed;
  \<open>n\<close> is that number before the first notification.
\<close>

fun since_trigger :: "string \<Rightarrow> string list \<Rightarrow> service \<Rightarrow> nat \<Rightarrow> nat" where
  "since_trigger t [] s n = n"
| "since_trigger t (e # es) s n =
     (let s' = snd (afterInsert e s) in
      since_trigger t es s'
        (if e = t then (if evictions t s' > evictions t s then 0 else Suc n) else n))"

text \<open>
  What can happen to a service after its construction: an insert notification, a
  reconciliation pass, or any change of the store made by somebody else (rows inserted or
  deleted through the routes, calls starting or ceasing to fail).
\<close>

datatype event = Inserted string | Reconciled | StoreChanged database

fun exec_event :: "event \<Rightarrow> service \<Rightarrow> service" where
  "exec_event (Inserted t) s = snd (afterInsert t s)"
| "exec_event Reconciled s = snd (verificarEstadoAtual s)"
| "exec_event (StoreChanged d) s = s\<lparr>db := d\<rparr>"

fun exec :: "event list \<Rightarrow> service \<Rightarrow> service" where
  "exec [] s = s"
| "exec (e # es) s = exec es (exec_event e s)"

text \<open>The rows the eviction query of \<^verbatim>\<open>limparRegistrosAntigos\<close> selects from a table.\<close>

definition oldest :: "database \<Rightarrow> string \<Rightarrow> row list" where
  "oldest d t = take REGISTROS_PARA_REMOVER (sort_key (order_key (nulls_first d)) (tables d t))"

text \<open>A table is well formed when its primary keys are pairwise distinct.\<close>

definition wf_table :: "row list \<Rightarrow> bool" where
  "wf_table rs = distinct (map row_id rs)"

text \<open>The rows an operation removed from a table: those it held before and not after.\<close>

definition removed_rows :: "string \<Rightarrow> service \<Rightarrow> service \<Rightarrow> row set" where
  "removed_rows t s s' = set (tables (db s) t) - set (tables (db s') t)"

text \<open>A sample table: \<open>n\<close> rows with keys \<open>0..<n\<close>, created in key order.\<close>

definition sample_rows :: "nat \<Rightarrow> row list" where
  "sample_rows n = map (\<lambda>i. \<lparr>row_id = i, created_at = Some (int i), data_registro = None\<rparr>) [0..<n]"

definition sample_db :: "string \<Rightarrow> row list \<Rightarrow> fault set \<Rightarrow> database" where
  "sample_db t rs fs =
     \<lparr>tables = (\<lambda>_. [])(t := rs), entityMetadatas = [t], faults = (\<lambda>_. {})(t := fs),
      nulls_first = True, calls = []\<rparr>"

text \<open>A sample store with two tables, the first of which cannot be counted.\<close>

definition sample_db2 :: database where
  "sample_db2 =
     \<lparr>tables = (\<lambda>_. [])(''users'' := sample_rows 600, ''articles'' := sample_rows 3),
      entityMetadatas = [''users'', ''articles''],
      faults = (\<lambda>_. {})(''users'' := {CountFault}),
      nulls_first = False, calls = []\<rparr>"

text \<open>What is left of a table once the selected rows are deleted by primary key.\<close>

definition survivors :: "database \<Rightarrow> string \<Rightarrow> row list" where
  "survivors d t = filter (\<lambda>r. row_id r \<notin> row_id ` set (oldest d t)) (tables d t)"

text \<open>The rows of a table have pairwise distinct recency keys.\<close>

definition distinct_keys :: "row list \<Rightarrow> bool" where
  "distinct_keys rs = distinct (map recency_key rs)"

text \<open>The reconciliation pass evicts from a table when its row count can be read and has reached the limit.\<close>

definition needs_eviction :: "service \<Rightarrow> string \<Rightarrow> bool" where
  "needs_eviction s t = (CountFault \<notin> faults (db s) t \<and> length (tables (db s) t) \<ge> LIMITE_REGISTROS)"

text \<open>Nothing that concerns table \<open>t\<close> differs between two states.\<close>

definition untouched :: "string \<Rightarrow> service \<Rightarrow> service \<Rightarrow> bool" where
  "untouched t s s' =
     (tableCounters s' t = tableCounters s t \<and> tables (db s') t = tables (db s) t
      \<and> faults (db s') = faults (db s) \<and> nulls_first (db s') = nulls_first (db s)
      \<and> evictions t s' = evictions t s \<and> counts t s' = counts t s \<and> removes t s' = removes t s)"

section \<open>What one eviction does to the state\<close>

lemmas logger_defs = LoggerService_info_def LoggerService_error_def LoggerService_warn_def
lemmas repo_defs = repo_getMany_def repo_remove_def repo_count_def

lemma limpar_fst: "fst (limparRegistrosAntigos t s) = Inr ()"
  by (simp add: limparRegistrosAntigos_def split: prod.splits sum.splits)

lemma limpar_counters: "tableCounters (snd (limparRegistrosAntigos t s)) = tableCounters s"
  by (simp add: limparRegistrosAntigos_def limpar_try_def repo_defs Let_def split: prod.splits sum.splits)

lemma limpar_static:
  "faults (db (snd (limparRegistrosAntigos t s))) = faults (db s)"
  "nulls_first (db (snd (limparRegistrosAntigos t s))) = nulls_first (db s)"
  "entityMetadatas (db (snd (limparRegistrosAntigos t s))) = entityMetadatas (db s)"
  by (simp_all add: limparRegistrosAntigos_def limpar_try_def repo_defs Let_def split: prod.splits sum.splits)

lemma limpar_calls:
  "calls (db (snd (limparRegistrosAntigos t s))) =
     calls (db s) @ OpGetMany t REGISTROS_PARA_REMOVER #
       (if QueryFault \<notin> faults (db s) t \<and> tables (db s) t \<noteq> []
        then [OpRemove t (map row_id (oldest (db s) t))] else [])"
  by (auto simp add: limparRegistrosAntigos_def limpar_try_def repo_defs Let_def oldest_def REGISTROS_PARA_REMOVER_def split: prod.splits sum.splits)

lemma limpar_tables:
  "tables (db (snd (limparRegistrosAntigos t s))) =
     (if QueryFault \<in> faults (db s) t \<or> DeleteFault \<in> faults (db s) t then tables (db s)
      else (tables (db s))(t := filter (\<lambda>r. row_id r \<notin> row_id ` set (oldest (db s) t)) (tables (db s) t)))"
  by (auto simp add: limparRegistrosAntigos_def limpar_try_def repo_defs Let_def oldest_def REGISTROS_PARA_REMOVER_def split: prod.splits sum.splits)

lemma limpar_log:
  "log (snd (limparRegistrosAntigos t s)) =
     log s @
       (if QueryFault \<in> faults (db s) t then [(ERROR, ErroAoLimpar t QueryFailed)]
        else if tables (db s) t = [] then []
        else if DeleteFault \<in> faults (db s) t then [(ERROR, ErroAoLimpar t DeleteFailed)]
        else [(INFO, RegistrosRemovidos t (length (oldest (db s) t)))])"
  by (auto simp add: limparRegistrosAntigos_def limpar_try_def repo_defs logger_defs Let_def oldest_def REGISTROS_PARA_REMOVER_def split: prod.splits sum.splits)

lemma oldest_subset: "set (oldest d t) \<subseteq> set (tables d t)"
  unfolding oldest_def by (metis set_sort set_take_subset)

lemma oldest_length: "length (oldest d t) = min REGISTROS_PARA_REMOVER (length (tables d t))"
  unfolding oldest_def by (simp add: min.commute)

lemma wf_table_distinct: "wf_table rs \<Longrightarrow> distinct rs"
  unfolding wf_table_def by (simp add: distinct_map)

lemma oldest_distinct: "wf_table (tables d t) \<Longrightarrow> distinct (oldest d t)"
  unfolding oldest_def by (simp add: wf_table_distinct)

lemma wf_filter_ids:
  assumes "wf_table rs" "S \<subseteq> set rs"
  shows "filter (\<lambda>r. row_id r \<notin> row_id ` S) rs = filter (\<lambda>r. r \<notin> S) rs"
proof (rule filter_cong[OF refl])
  fix r assume r: "r \<in> set rs"
  have inj: "inj_on row_id (set rs)"
    using assms(1) unfolding wf_table_def by (simp add: distinct_map)
  show "(row_id r \<notin> row_id ` S) = (r \<notin> S)"
    using inj r assms(2) by (auto dest: inj_onD)
qed

lemma length_filter_notin:
  assumes "distinct rs" "S \<subseteq> set rs"
  shows "length (filter (\<lambda>r. r \<notin> S) rs) = length rs - card S"
proof -
  have fin: "finite S" using assms(2) finite_subset by blast
  have "distinct (filter (\<lambda>r. r \<notin> S) rs)" using assms(1) by simp
  then have "length (filter (\<lambda>r. r \<notin> S) rs) = card (set (filter (\<lambda>r. r \<notin> S) rs))"
    by (rule distinct_card[symmetric])
  also have "set (filter (\<lambda>r. r \<notin> S) rs) = set rs - S" by auto
  also have "card (set rs - S) = card (set rs) - card S"
    using assms(2) fin by (simp add: card_Diff_subset)
  also have "card (set rs) = length rs" using assms(1) by (simp add: distinct_card)
  finally show ?thesis .
qed

lemma survivors_eq: "wf_table (tables d t) \<Longrightarrow> survivors d t = filter (\<lambda>r. r \<notin> set (oldest d t)) (tables d t)"
  unfolding survivors_def by (rule wf_filter_ids[OF _ oldest_subset])

lemma survivors_length:
  "wf_table (tables d t) \<Longrightarrow> length (survivors d t) = length (tables d t) - min REGISTROS_PARA_REMOVER (length (tables d t))"
  by (simp add: survivors_eq length_filter_notin[OF wf_table_distinct oldest_subset]
      distinct_card[OF oldest_distinct] oldest_length)

lemma survivors_removed:
  "wf_table (tables d t) \<Longrightarrow> set (tables d t) - set (survivors d t) = set (oldest d t)"
  using oldest_subset[of d t] by (auto simp add: survivors_eq)

lemma limpar_table_ok:
  "QueryFault \<notin> faults (db s) t \<Longrightarrow> DeleteFault \<notin> faults (db s) t \<Longrightarrow>
   tables (db (snd (limparRegistrosAntigos t s))) t = survivors (db s) t"
  by (simp add: limpar_tables survivors_def)

lemma limpar_table_other:
  "t' \<noteq> t \<Longrightarrow> tables (db (snd (limparRegistrosAntigos t s))) t' = tables (db s) t'"
  by (simp add: limpar_tables)

lemma limpar_table_failed:
  "QueryFault \<in> faults (db s) t \<or> DeleteFault \<in> faults (db s) t \<Longrightarrow>
   tables (db (snd (limparRegistrosAntigos t s))) = tables (db s)"
  by (simp add: limpar_tables)

lemma removed_rows_limpar:
  assumes "wf_table (tables (db s) t)"
  shows "removed_rows t s (snd (limparRegistrosAntigos t s)) =
     (if QueryFault \<in> faults (db s) t \<or> DeleteFault \<in> faults (db s) t then {}
      else set (oldest (db s) t))"
  using survivors_removed[OF assms]
  by (auto simp add: removed_rows_def limpar_tables survivors_def)

lemma sample_rows_wf: "wf_table (sample_rows n)"
  by (simp add: wf_table_def sample_rows_def comp_def)

lemma sample_rows_length: "length (sample_rows n) = n"
  by (simp add: sample_rows_def)

lemma sample_rows_keys: "distinct_keys (sample_rows n)"
  by (simp add: distinct_keys_def sample_rows_def comp_def recency_key_def COALESCE_def distinct_map inj_on_def)

lemma sample_db_simps:
  "tables (db (constructor (sample_db t rs fs))) t = rs"
  "faults (db (constructor (sample_db t rs fs))) t = fs"
  "entityMetadatas (db (constructor (sample_db t rs fs))) = [t]"
  "calls (db (constructor (sample_db t rs fs))) = []"
  "tableCounters (constructor (sample_db t rs fs)) = Map.empty"
  by (simp_all add: constructor_def sample_db_def)

section \<open>Batch bound\<close>

text \<open>
  C2. One call of the eviction \<^verbatim>\<open>limparRegistrosAntigos\<close> (batch size 250) on a table whose
  primary keys are distinct never removes more than 250 rows, whatever the store does; and
  when neither the query nor the delete fails it removes exactly \<open>min 250 n\<close> of the \<open>n\<close>
  rows the table holds, leaving \<open>n - min 250 n\<close>.
\<close>

theorem evict_batch_bound:
  assumes "wf_table (tables (db s) t)"
  shows "card (removed_rows t s (snd (limparRegistrosAntigos t s))) \<le> 250
       \<and> (QueryFault \<notin> faults (db s) t \<and> DeleteFault \<notin> faults (db s) t \<longrightarrow>
            card (removed_rows t s (snd (limparRegistrosAntigos t s)))
              = min 250 (length (tables (db s) t))
          \<and> length (tables (db (snd (limparRegistrosAntigos t s))) t)
              = length (tables (db s) t) - min 250 (length (tables (db s) t)))"
proof -
  have c: "card (set (oldest (db s) t)) = min REGISTROS_PARA_REMOVER (length (tables (db s) t))"
    using distinct_card[OF oldest_distinct[OF assms]] by (simp add: oldest_length)
  show ?thesis
    using c survivors_length[OF assms]
    by (simp add: removed_rows_limpar[OF assms] limpar_tables survivors_def REGISTROS_PARA_REMOVER_def)
qed

theorem evict_batch_bound_witness:
  "wf_table (tables (db (constructor (sample_db ''users'' (sample_rows 300) {}))) ''users'')
   \<and> card (removed_rows ''users'' (constructor (sample_db ''users'' (sample_rows 300) {}))
        (snd (limparRegistrosAntigos ''users'' (constructor (sample_db ''users'' (sample_rows 300) {}))))) = 250
   \<and> length (tables (db (snd (limparRegistrosAntigos ''users''
        (constructor (sample_db ''users'' (sample_rows 300) {}))))) ''users'') = 50"
proof -
  let ?s = "constructor (sample_db ''users'' (sample_rows 300) {})"
  have w: "wf_table (tables (db ?s) ''users'')"
    by (simp add: sample_db_simps sample_rows_wf)
  have f: "QueryFault \<notin> faults (db ?s) ''users'' \<and> DeleteFault \<notin> faults (db ?s) ''users''"
    by (simp add: sample_db_simps)
  have l: "length (tables (db ?s) ''users'') = 300"
    by (simp add: sample_db_simps sample_rows_length)
  from evict_batch_bound[OF w] f l show ?thesis using w by simp
qed

section \<open>The order of the eviction query\<close>

lemma key_rank_inj: "key_rank nf a = key_rank nf b \<Longrightarrow> a = b"
  by (auto simp add: key_rank_def split: option.splits if_splits)

lemma key_rank_some: "key_rank nf (Some a) < key_rank nf (Some b) \<longleftrightarrow> a < b"
  by (simp add: key_rank_def)

lemma take_drop_sorted_less:
  assumes "sorted (map k ys)" "distinct (map k ys)" "x \<in> set (take n ys)" "r \<in> set (drop n ys)"
  shows "k x < k r"
proof -
  have "sorted_wrt (<) (map k ys)"
    using assms(1,2) by (simp add: strict_sorted_iff)
  then have "sorted_wrt (\<lambda>a b. k a < k b) (take n ys @ drop n ys)"
    by (simp add: sorted_wrt_map)
  then show ?thesis
    using assms(3,4) unfolding sorted_wrt_append by blast
qed

lemma smaller_than_nth:
  assumes "sorted (map k ys)" "distinct (map k ys)" "i < length ys"
  shows "{x \<in> set ys. k x < k (ys ! i)} = set (take i ys)"
proof -
  have "sorted_wrt (<) (map k ys)"
    using assms(1,2) by (simp add: strict_sorted_iff)
  then have sw: "sorted_wrt (\<lambda>a b. k a < k b) ys"
    by (simp add: sorted_wrt_map)
  have mono: "\<And>a b. a < b \<Longrightarrow> b < length ys \<Longrightarrow> k (ys ! a) < k (ys ! b)"
    using sw by (simp add: sorted_wrt_iff_nth_less)
  show ?thesis
  proof (rule set_eqI, rule iffI)
    fix x assume "x \<in> {x \<in> set ys. k x < k (ys ! i)}"
    then obtain j where j: "j < length ys" "x = ys ! j" "k (ys ! j) < k (ys ! i)"
      by (auto simp add: in_set_conv_nth)
    have "j < i"
    proof (rule ccontr)
      assume "\<not> j < i"
      then have "i = j \<or> i < j" by auto
      then show False using j mono[of i j] by auto
    qed
    then show "x \<in> set (take i ys)"
      using j assms(3) by (auto simp add: in_set_conv_nth)
  next
    fix x assume "x \<in> set (take i ys)"
    then obtain j where j: "j < i" "x = ys ! j"
      using assms(3) by (auto simp add: in_set_conv_nth)
    then show "x \<in> {x \<in> set ys. k x < k (ys ! i)}"
      using mono[of j i] assms(3) by auto
  qed
qed

lemma take_by_rank:
  assumes "sorted (map k ys)" "distinct (map k ys)"
  shows "set (take n ys) = {r \<in> set ys. card {x \<in> set ys. k x < k r} < n}"
proof (rule set_eqI, rule iffI)
  have d: "distinct ys" using assms(2) by (simp add: distinct_map)
  fix r assume "r \<in> set (take n ys)"
  then obtain i where i: "i < n" "i < length ys" "r = ys ! i"
    by (auto simp add: in_set_conv_nth)
  have "card {x \<in> set ys. k x < k r} = card (set (take i ys))"
    using smaller_than_nth[OF assms i(2)] i(3) by simp
  also have "\<dots> = i" using d i(2) by (simp add: distinct_card)
  finally show "r \<in> {r \<in> set ys. card {x \<in> set ys. k x < k r} < n}"
    using i by auto
next
  have d: "distinct ys" using assms(2) by (simp add: distinct_map)
  fix r assume "r \<in> {r \<in> set ys. card {x \<in> set ys. k x < k r} < n}"
  then obtain i where i: "i < length ys" "r = ys ! i" and c: "card {x \<in> set ys. k x < k r} < n"
    by (auto simp add: in_set_conv_nth)
  have "card {x \<in> set ys. k x < k r} = card (set (take i ys))"
    using smaller_than_nth[OF assms i(1)] i(2) by simp
  also have "\<dots> = i" using d i(1) by (simp add: distinct_card)
  finally have "i < n" using c by simp
  then show "r \<in> set (take n ys)"
    using i by (auto simp add: in_set_conv_nth)
qed

lemma distinct_order_keys:
  "distinct_keys rs \<Longrightarrow> distinct (map (order_key nf) (sort_key (order_key nf) rs))"
proof -
  assume a: "distinct_keys rs"
  have "inj_on (key_rank nf) (set (map recency_key rs))"
    by (rule inj_onI) (rule key_rank_inj)
  then have "distinct (map (key_rank nf) (map recency_key rs))"
    using a unfolding distinct_keys_def by (simp only: distinct_map)
  moreover have "map (key_rank nf) (map recency_key rs) = map (order_key nf) rs"
    by (simp add: order_key_def)
  ultimately have "distinct (map (order_key nf) rs)"
    by (simp only:)
  then show ?thesis
    by (metis distinct_map distinct_sort set_sort inj_on_cong)
qed

lemma survivors_in_drop:
  assumes "wf_table (tables d t)" "r \<in> set (survivors d t)"
  shows "r \<in> set (drop REGISTROS_PARA_REMOVER (sort_key (order_key (nulls_first d)) (tables d t)))"
proof -
  let ?ys = "sort_key (order_key (nulls_first d)) (tables d t)"
  have "r \<in> set (tables d t)" "r \<notin> set (take REGISTROS_PARA_REMOVER ?ys)"
    using assms(2) by (simp_all add: survivors_eq[OF assms(1)] oldest_def)
  moreover have "set ?ys = set (take REGISTROS_PARA_REMOVER ?ys) \<union> set (drop REGISTROS_PARA_REMOVER ?ys)"
    by (metis append_take_drop_id set_append)
  ultimately show ?thesis by simp
qed

lemma oldest_before_survivors:
  assumes "wf_table (tables d t)" "distinct_keys (tables d t)"
    "x \<in> set (oldest d t)" "r \<in> set (survivors d t)"
  shows "order_key (nulls_first d) x < order_key (nulls_first d) r"
  using take_drop_sorted_less[OF sorted_sort_key distinct_order_keys[OF assms(2)], of x REGISTROS_PARA_REMOVER
      "nulls_first d" r]
    assms(3) survivors_in_drop[OF assms(1,4)]
  by (simp add: oldest_def)

lemma oldest_by_rank:
  assumes "distinct_keys (tables d t)"
  shows "set (oldest d t) =
     {r \<in> set (tables d t).
        card {x \<in> set (tables d t). order_key (nulls_first d) x < order_key (nulls_first d) r}
          < REGISTROS_PARA_REMOVER}"
  using take_by_rank[OF sorted_sort_key distinct_order_keys[OF assms], of REGISTROS_PARA_REMOVER "nulls_first d"]
  by (simp add: oldest_def)

lemma order_key_values:
  "order_key nf x \<le> order_key nf r \<Longrightarrow> recency_key x = Some a \<Longrightarrow> recency_key r = Some b \<Longrightarrow> a \<le> b"
  by (simp add: order_key_def key_rank_def)

section \<open>Oldest first\<close>

text \<open>
  C3. On a table whose rows have pairwise distinct recency keys (and distinct primary
  keys), an eviction whose query and delete succeed removes exactly the rows that have fewer
  than 250 rows before them in the query's order, that is the \<open>min 250 n\<close> rows with the
  smallest recency keys; every row that remains has a recency key at or after every removed
  row's key in that order, and for keys that are not NULL this is \<open>\<le>\<close> on their values.
\<close>

theorem evict_oldest_first:
  assumes "wf_table (tables (db s) t)" and "distinct_keys (tables (db s) t)"
    and "QueryFault \<notin> faults (db s) t" and "DeleteFault \<notin> faults (db s) t"
  shows "removed_rows t s (snd (limparRegistrosAntigos t s)) =
           {r \<in> set (tables (db s) t).
              card {x \<in> set (tables (db s) t).
                      order_key (nulls_first (db s)) x < order_key (nulls_first (db s)) r} < 250}
       \<and> card (removed_rows t s (snd (limparRegistrosAntigos t s))) = min 250 (length (tables (db s) t))
       \<and> (\<forall>x \<in> removed_rows t s (snd (limparRegistrosAntigos t s)).
            \<forall>r \<in> set (tables (db (snd (limparRegistrosAntigos t s))) t).
              order_key (nulls_first (db s)) x \<le> order_key (nulls_first (db s)) r
              \<and> (\<forall>a b. recency_key x = Some a \<and> recency_key r = Some b \<longrightarrow> a \<le> b))"
proof -
  let ?s' = "snd (limparRegistrosAntigos t s)"
  have rem: "removed_rows t s ?s' = set (oldest (db s) t)"
    using assms(3,4) by (simp add: removed_rows_limpar[OF assms(1)])
  have tab: "tables (db ?s') t = survivors (db s) t"
    using assms(3,4) by (rule limpar_table_ok)
  have c: "card (set (oldest (db s) t)) = min 250 (length (tables (db s) t))"
    using distinct_card[OF oldest_distinct[OF assms(1)]]
    by (simp add: oldest_length REGISTROS_PARA_REMOVER_def)
  have sep: "\<And>x r. x \<in> set (oldest (db s) t) \<Longrightarrow> r \<in> set (survivors (db s) t) \<Longrightarrow>
      order_key (nulls_first (db s)) x \<le> order_key (nulls_first (db s)) r"
    using oldest_before_survivors[OF assms(1,2)] by (simp add: less_imp_le)
  show ?thesis
    unfolding rem tab
    using oldest_by_rank[OF assms(2)] c sep order_key_values
    by (simp add: REGISTROS_PARA_REMOVER_def) blast
qed

theorem evict_oldest_first_witness:
  "wf_table (tables (db (constructor (sample_db ''articles'' (sample_rows 400) {}))) ''articles'')
   \<and> distinct_keys (tables (db (constructor (sample_db ''articles'' (sample_rows 400) {}))) ''articles'')
   \<and> card (removed_rows ''articles'' (constructor (sample_db ''articles'' (sample_rows 400) {}))
        (snd (limparRegistrosAntigos ''articles''
           (constructor (sample_db ''articles'' (sample_rows 400) {}))))) = 250"
proof -
  let ?s = "constructor (sample_db ''articles'' (sample_rows 400) {})"
  have w: "wf_table (tables (db ?s) ''articles'')"
    by (simp add: sample_db_simps sample_rows_wf)
  have k: "distinct_keys (tables (db ?s) ''articles'')"
    by (simp add: sample_db_simps sample_rows_keys)
  have q: "QueryFault \<notin> faults (db ?s) ''articles''" and d: "DeleteFault \<notin> faults (db ?s) ''articles''"
    by (simp_all add: sample_db_simps)
  have l: "length (tables (db ?s) ''articles'') = 400"
    by (simp add: sample_db_simps sample_rows_length)
  have "card (removed_rows ''articles'' ?s (snd (limparRegistrosAntigos ''articles'' ?s)))
      = min 250 (length (tables (db ?s) ''articles''))"
    using evict_oldest_first[OF w k q d] by (rule conjunct1[OF conjunct2])
  then show ?thesis using w k l by simp
qed

section \<open>The insert handler\<close>

lemma afterInsert_fst: "fst (afterInsert t s) = Inr ()"
  by (simp add: afterInsert_def Let_def)

lemma afterInsert_counters:
  "tableCounters (snd (afterInsert t s)) =
     (tableCounters s)(t \<mapsto> (if counter_of s t + 1 \<ge> LIMITE_REGISTROS then 0 else counter_of s t + 1))"
  by (simp add: afterInsert_def Let_def counter_of_def limpar_counters)

lemma afterInsert_db:
  "db (snd (afterInsert t s)) =
     (if counter_of s t + 1 \<ge> LIMITE_REGISTROS
      then db (snd (limparRegistrosAntigos t
                 (s\<lparr>tableCounters := (tableCounters s)(t \<mapsto> counter_of s t + 1),
                    log := LoggerService_info (LimiteAtingido t (counter_of s t + 1)) (log s)\<rparr>)))
      else db s)"
  by (simp add: afterInsert_def Let_def counter_of_def)

lemma afterInsert_counter_of:
  "counter_of (snd (afterInsert e s)) t =
     (if e = t then (if counter_of s t + 1 \<ge> LIMITE_REGISTROS then 0 else counter_of s t + 1)
      else counter_of s t)"
  by (simp add: afterInsert_counters counter_of_def)

lemma afterInsert_calls:
  "calls (db (snd (afterInsert t s))) =
     (if counter_of s t + 1 \<ge> LIMITE_REGISTROS
      then calls (db s) @ OpGetMany t REGISTROS_PARA_REMOVER #
             (if QueryFault \<notin> faults (db s) t \<and> tables (db s) t \<noteq> []
              then [OpRemove t (map row_id (oldest (db s) t))] else [])
      else calls (db s))"
  by (simp add: afterInsert_db limpar_calls oldest_def)

lemma afterInsert_evictions:
  "evictions t (snd (afterInsert e s)) =
     evictions t s + (if e = t \<and> counter_of s t + 1 \<ge> LIMITE_REGISTROS then 1 else 0)"
  by (auto simp add: evictions_def afterInsert_calls)

lemma afterInsert_tables:
  "tables (db (snd (afterInsert t s))) =
     (if counter_of s t + 1 \<ge> LIMITE_REGISTROS \<and> QueryFault \<notin> faults (db s) t \<and> DeleteFault \<notin> faults (db s) t
      then (tables (db s))(t := survivors (db s) t)
      else tables (db s))"
  by (simp add: afterInsert_db limpar_tables survivors_def oldest_def)

lemma run_inserts_counter:
  "counter_of s t < LIMITE_REGISTROS \<Longrightarrow>
   counter_of (run_inserts es s) t = (counter_of s t + count_list es t) mod LIMITE_REGISTROS"
proof (induction es arbitrary: s)
  case Nil
  then show ?case by simp
next
  case (Cons e es)
  have lt: "counter_of (snd (afterInsert e s)) t < LIMITE_REGISTROS"
    using Cons.prems by (simp add: afterInsert_counter_of LIMITE_REGISTROS_def)
  show ?case
  proof (cases "e = t \<and> counter_of s t + 1 \<ge> LIMITE_REGISTROS")
    case True
    then have eq: "counter_of s t + 1 = LIMITE_REGISTROS" using Cons.prems by simp
    have sum: "counter_of s t + count_list (e # es) t = LIMITE_REGISTROS + count_list es t"
      using True eq by simp
    have "counter_of (run_inserts (e # es) s) t = count_list es t mod LIMITE_REGISTROS"
      using Cons.IH[OF lt] True by (simp add: afterInsert_counter_of)
    then show ?thesis
      unfolding sum by simp
  next
    case False
    then show ?thesis using Cons.IH[OF lt] by (auto simp add: afterInsert_counter_of)
  qed
qed

lemma run_inserts_evictions:
  "counter_of s t < LIMITE_REGISTROS \<Longrightarrow>
   evictions t (run_inserts es s) = evictions t s + (counter_of s t + count_list es t) div LIMITE_REGISTROS"
proof (induction es arbitrary: s)
  case Nil
  then show ?case by simp
next
  case (Cons e es)
  have lt: "counter_of (snd (afterInsert e s)) t < LIMITE_REGISTROS"
    using Cons.prems by (simp add: afterInsert_counter_of LIMITE_REGISTROS_def)
  show ?case
  proof (cases "e = t \<and> counter_of s t + 1 \<ge> LIMITE_REGISTROS")
    case True
    then have eq: "counter_of s t + 1 = LIMITE_REGISTROS" using Cons.prems by simp
    have sum: "counter_of s t + count_list (e # es) t = LIMITE_REGISTROS + count_list es t"
      using True eq by simp
    have pos: "0 < LIMITE_REGISTROS" by (simp add: LIMITE_REGISTROS_def)
    have "evictions t (run_inserts (e # es) s) = evictions t s + 1 + count_list es t div LIMITE_REGISTROS"
      using Cons.IH[OF lt] True by (simp add: afterInsert_counter_of afterInsert_evictions)
    moreover have "(LIMITE_REGISTROS + count_list es t) div LIMITE_REGISTROS
        = 1 + count_list es t div LIMITE_REGISTROS"
      using pos by (metis div_add_self1 less_numeral_extra(3) add.commute plus_1_eq_Suc Suc_eq_plus1)
    ultimately show ?thesis
      unfolding sum by simp
  next
    case False
    then show ?thesis using Cons.IH[OF lt] by (auto simp add: afterInsert_counter_of afterInsert_evictions)
  qed
qed

lemma since_trigger_eq:
  "counter_of s t < LIMITE_REGISTROS \<Longrightarrow>
   since_trigger t es s (counter_of s t) = counter_of (run_inserts es s) t"
proof (induction es arbitrary: s)
  case Nil
  then show ?case by simp
next
  case (Cons e es)
  have lt: "counter_of (snd (afterInsert e s)) t < LIMITE_REGISTROS"
    using Cons.prems by (simp add: afterInsert_counter_of LIMITE_REGISTROS_def)
  have "(if e = t then (if evictions t (snd (afterInsert e s)) > evictions t s then 0 else Suc (counter_of s t))
         else counter_of s t) = counter_of (snd (afterInsert e s)) t"
    by (simp add: afterInsert_evictions afterInsert_counter_of)
  then show ?case using Cons.IH[OF lt] by (simp add: Let_def)
qed

lemma run_inserts_dom:
  "tableCounters (run_inserts es s) t = None \<longleftrightarrow> tableCounters s t = None \<and> t \<notin> set es"
  by (induction es arbitrary: s) (auto simp add: afterInsert_counters)

section \<open>The reconciliation pass\<close>

lemma verificar_try_unfold:
  "verificar_try t s =
    (if CountFault \<in> faults (db s) t
     then (Inl CountFailed, s\<lparr>db := (db s)\<lparr>calls := calls (db s) @ [OpCount t]\<rparr>\<rparr>)
     else (let n = length (tables (db s) t);
               s1 = s\<lparr>db := (db s)\<lparr>calls := calls (db s) @ [OpCount t]\<rparr>\<rparr>;
               s2 = (if n \<ge> LIMITE_REGISTROS
                     then snd (limparRegistrosAntigos t
                            (s1\<lparr>log := LoggerService_warn (TabelaExcedeuLimite t n LIMITE_REGISTROS) (log s1)\<rparr>))
                     else s1)
           in (Inr (), s2\<lparr>tableCounters := (tableCounters s2)(t \<mapsto> n mod LIMITE_REGISTROS),
                          log := LoggerService_info (EstadoVerificado t n) (log s2)\<rparr>)))"
proof (cases "CountFault \<in> faults (db s) t")
  case True
  then show ?thesis by (simp add: verificar_try_def repo_count_def Let_def)
next
  case False
  obtain s' where e: "limparRegistrosAntigos t
      (s\<lparr>db := (db s)\<lparr>calls := calls (db s) @ [OpCount t]\<rparr>,
         log := LoggerService_warn (TabelaExcedeuLimite t (length (tables (db s) t)) LIMITE_REGISTROS) (log s)\<rparr>)
      = (Inr (), s')"
    by (metis limpar_fst prod.collapse)
  show ?thesis using False e by (simp add: verificar_try_def repo_count_def Let_def)
qed

lemma verificar_entity_fst: "fst (verificar_entity t s) = Inr ()"
  by (simp add: verificar_entity_def split: prod.splits sum.splits)

lemma verificar_entity_counters:
  "tableCounters (snd (verificar_entity t s)) =
     (if CountFault \<in> faults (db s) t then tableCounters s
      else (tableCounters s)(t \<mapsto> length (tables (db s) t) mod LIMITE_REGISTROS))"
  by (simp add: verificar_entity_def verificar_try_unfold Let_def limpar_counters)

lemma verificar_entity_calls:
  "calls (db (snd (verificar_entity t s))) =
     calls (db s) @ OpCount t #
       (if needs_eviction s t
        then OpGetMany t REGISTROS_PARA_REMOVER #
               (if QueryFault \<notin> faults (db s) t \<and> tables (db s) t \<noteq> []
                then [OpRemove t (map row_id (oldest (db s) t))] else [])
        else [])"
  by (simp add: verificar_entity_def verificar_try_unfold Let_def limpar_calls oldest_def needs_eviction_def)

lemma verificar_entity_tables:
  "tables (db (snd (verificar_entity t s))) =
     (if needs_eviction s t \<and> QueryFault \<notin> faults (db s) t \<and> DeleteFault \<notin> faults (db s) t
      then (tables (db s))(t := survivors (db s) t)
      else tables (db s))"
  by (simp add: verificar_entity_def verificar_try_unfold Let_def limpar_tables oldest_def survivors_def needs_eviction_def)

lemma verificar_entity_static:
  "faults (db (snd (verificar_entity t s))) = faults (db s)"
  "nulls_first (db (snd (verificar_entity t s))) = nulls_first (db s)"
  "entityMetadatas (db (snd (verificar_entity t s))) = entityMetadatas (db s)"
  by (simp_all add: verificar_entity_def verificar_try_unfold Let_def limpar_static)

lemma verificar_entity_log:
  "log (snd (verificar_entity t s)) =
     log s @
       (if CountFault \<in> faults (db s) t then [(ERROR, ErroAoVerificar t CountFailed)]
        else (if length (tables (db s) t) \<ge> LIMITE_REGISTROS
              then (WARN, TabelaExcedeuLimite t (length (tables (db s) t)) LIMITE_REGISTROS) #
                   (if QueryFault \<in> faults (db s) t then [(ERROR, ErroAoLimpar t QueryFailed)]
                    else if DeleteFault \<in> faults (db s) t then [(ERROR, ErroAoLimpar t DeleteFailed)]
                    else [(INFO, RegistrosRemovidos t (length (oldest (db s) t)))])
              else [])
             @ [(INFO, EstadoVerificado t (length (tables (db s) t)))])"
  by (auto simp add: verificar_entity_def verificar_try_unfold Let_def limpar_log oldest_def logger_defs LIMITE_REGISTROS_def)

lemma untouched_refl: "untouched t s s"
  by (simp add: untouched_def)

lemma untouched_trans: "untouched t s s' \<Longrightarrow> untouched t s' s'' \<Longrightarrow> untouched t s s''"
  by (simp add: untouched_def)

lemma verificar_entity_other_calls:
  assumes "e \<noteq> t"
  shows "evictions t (snd (verificar_entity e s)) = evictions t s"
    and "counts t (snd (verificar_entity e s)) = counts t s"
    and "removes t (snd (verificar_entity e s)) = removes t s"
  using assms by (simp_all add: evictions_def counts_def removes_def verificar_entity_calls)

lemma verificar_entity_other: "e \<noteq> t \<Longrightarrow> untouched t s (snd (verificar_entity e s))"
  unfolding untouched_def
  by (simp add: verificar_entity_counters verificar_entity_tables verificar_entity_static
      verificar_entity_other_calls)

lemma verificar_loop_step:
  "verificar_loop (e # es) s = verificar_loop es (snd (verificar_entity e s))"
proof -
  obtain s' where "verificar_entity e s = (Inr (), s')"
    by (metis verificar_entity_fst prod.collapse)
  then show ?thesis by simp
qed

lemma verificar_loop_fst: "fst (verificar_loop es s) = Inr ()"
  by (induction es arbitrary: s) (simp_all add: verificar_loop_step del: verificar_loop.simps(2))

lemma verificar_loop_append:
  "verificar_loop (as @ bs) s = verificar_loop bs (snd (verificar_loop as s))"
  by (induction as arbitrary: s) (simp_all add: verificar_loop_step del: verificar_loop.simps(2))

lemma verificar_loop_other:
  "t \<notin> set es \<Longrightarrow> untouched t s (snd (verificar_loop es s))"
proof (induction es arbitrary: s)
  case Nil
  then show ?case by (simp add: untouched_refl)
next
  case (Cons e es)
  then have "e \<noteq> t" by auto
  then have "untouched t s (snd (verificar_entity e s))"
    by (rule verificar_entity_other)
  moreover have "untouched t (snd (verificar_entity e s)) (snd (verificar_loop es (snd (verificar_entity e s))))"
    using Cons by simp
  ultimately show ?case
    unfolding verificar_loop_step by (rule untouched_trans)
qed

text \<open>The pass reaches a table that is enumerated once exactly once.\<close>

lemma verificar_loop_at:
  assumes "distinct es" "t \<in> set es"
  shows "\<exists>s0. untouched t s s0 \<and> untouched t (snd (verificar_entity t s0)) (snd (verificar_loop es s))"
proof -
  obtain as bs where es: "es = as @ t # bs" using assms(2) by (auto dest: split_list)
  have a: "t \<notin> set as" and b: "t \<notin> set bs" using assms(1) es by auto
  let ?s0 = "snd (verificar_loop as s)"
  have "untouched t s ?s0" using a by (rule verificar_loop_other)
  moreover have "snd (verificar_loop es s) = snd (verificar_loop bs (snd (verificar_entity t ?s0)))"
    by (simp add: es verificar_loop_append verificar_loop_step del: verificar_loop.simps(2))
  ultimately show ?thesis
    using verificar_loop_other[OF b, of "snd (verificar_entity t ?s0)"] by auto
qed

lemma untouchedD:
  assumes "untouched t s s'"
  shows "tableCounters s' t = tableCounters s t"
    and "tables (db s') t = tables (db s) t"
    and "faults (db s') = faults (db s)"
    and "nulls_first (db s') = nulls_first (db s)"
    and "evictions t s' = evictions t s"
    and "counts t s' = counts t s"
    and "removes t s' = removes t s"
  using assms unfolding untouched_def by blast+

lemma untouched_derived:
  assumes "untouched t s s'"
  shows "needs_eviction s' t = needs_eviction s t"
    and "oldest (db s') t = oldest (db s) t"
    and "survivors (db s') t = survivors (db s) t"
  unfolding needs_eviction_def oldest_def survivors_def
  by (simp_all only: untouchedD(2,3,4)[OF assms])

lemma verificar_loop_counter:
  assumes "distinct es" "t \<in> set es"
  shows "tableCounters (snd (verificar_loop es s)) t =
     (if CountFault \<in> faults (db s) t then tableCounters s t
      else Some (length (tables (db s) t) mod LIMITE_REGISTROS))"
proof -
  obtain s0 where u: "untouched t s s0" "untouched t (snd (verificar_entity t s0)) (snd (verificar_loop es s))"
    using verificar_loop_at[OF assms] by blast
  have "tableCounters (snd (verificar_loop es s)) t = tableCounters (snd (verificar_entity t s0)) t"
    by (rule untouchedD(1)[OF u(2)])
  also have "\<dots> = (if CountFault \<in> faults (db s0) t then tableCounters s0 t
      else Some (length (tables (db s0) t) mod LIMITE_REGISTROS))"
    by (simp add: verificar_entity_counters)
  also have "\<dots> = (if CountFault \<in> faults (db s) t then tableCounters s t
      else Some (length (tables (db s) t) mod LIMITE_REGISTROS))"
    by (simp only: untouchedD(1,2,3)[OF u(1)])
  finally show ?thesis .
qed

lemma verificar_loop_evictions:
  assumes "distinct es" "t \<in> set es"
  shows "evictions t (snd (verificar_loop es s)) = evictions t s + (if needs_eviction s t then 1 else 0)"
proof -
  obtain s0 where u: "untouched t s s0" "untouched t (snd (verificar_entity t s0)) (snd (verificar_loop es s))"
    using verificar_loop_at[OF assms] by blast
  have "evictions t (snd (verificar_loop es s)) = evictions t (snd (verificar_entity t s0))"
    by (rule untouchedD(5)[OF u(2)])
  also have "\<dots> = evictions t s0 + (if needs_eviction s0 t then 1 else 0)"
    by (simp add: evictions_def verificar_entity_calls)
  also have "\<dots> = evictions t s + (if needs_eviction s t then 1 else 0)"
    by (simp only: untouchedD(5)[OF u(1)] untouched_derived(1)[OF u(1)])
  finally show ?thesis .
qed

lemma verificar_loop_counts:
  assumes "distinct es" "t \<in> set es"
  shows "counts t (snd (verificar_loop es s)) = counts t s + 1"
proof -
  obtain s0 where u: "untouched t s s0" "untouched t (snd (verificar_entity t s0)) (snd (verificar_loop es s))"
    using verificar_loop_at[OF assms] by blast
  have "counts t (snd (verificar_loop es s)) = counts t (snd (verificar_entity t s0))"
    by (rule untouchedD(6)[OF u(2)])
  also have "\<dots> = counts t s0 + 1"
    by (simp add: counts_def verificar_entity_calls)
  also have "\<dots> = counts t s + 1"
    by (simp only: untouchedD(6)[OF u(1)])
  finally show ?thesis .
qed

lemma verificar_loop_table:
  assumes "distinct es" "t \<in> set es"
  shows "tables (db (snd (verificar_loop es s))) t =
     (if needs_eviction s t \<and> QueryFault \<notin> faults (db s) t \<and> DeleteFault \<notin> faults (db s) t
      then survivors (db s) t else tables (db s) t)"
proof -
  obtain s0 where u: "untouched t s s0" "untouched t (snd (verificar_entity t s0)) (snd (verificar_loop es s))"
    using verificar_loop_at[OF assms] by blast
  have "tables (db (snd (verificar_loop es s))) t = tables (db (snd (verificar_entity t s0))) t"
    by (rule untouchedD(2)[OF u(2)])
  also have "\<dots> = (if needs_eviction s0 t \<and> QueryFault \<notin> faults (db s0) t \<and> DeleteFault \<notin> faults (db s0) t
      then survivors (db s0) t else tables (db s0) t)"
    by (simp add: verificar_entity_tables)
  also have "\<dots> = (if needs_eviction s t \<and> QueryFault \<notin> faults (db s) t \<and> DeleteFault \<notin> faults (db s) t
      then survivors (db s) t else tables (db s) t)"
    by (simp only: untouchedD(2,3)[OF u(1)] untouched_derived[OF u(1)])
  finally show ?thesis .
qed

lemma verificar_loop_removes:
  assumes "distinct es" "t \<in> set es"
  shows "removes t (snd (verificar_loop es s)) = removes t s @
     (if needs_eviction s t \<and> QueryFault \<notin> faults (db s) t \<and> tables (db s) t \<noteq> []
      then [OpRemove t (map row_id (oldest (db s) t))] else [])"
proof -
  obtain s0 where u: "untouched t s s0" "untouched t (snd (verificar_entity t s0)) (snd (verificar_loop es s))"
    using verificar_loop_at[OF assms] by blast
  have "removes t (snd (verificar_loop es s)) = removes t (snd (verificar_entity t s0))"
    by (rule untouchedD(7)[OF u(2)])
  also have "\<dots> = removes t s0 @
     (if needs_eviction s0 t \<and> QueryFault \<notin> faults (db s0) t \<and> tables (db s0) t \<noteq> []
      then [OpRemove t (map row_id (oldest (db s0) t))] else [])"
    by (simp add: removes_def verificar_entity_calls)
  also have "\<dots> = removes t s @
     (if needs_eviction s t \<and> QueryFault \<notin> faults (db s) t \<and> tables (db s) t \<noteq> []
      then [OpRemove t (map row_id (oldest (db s) t))] else [])"
    by (simp only: untouchedD(2,3,7)[OF u(1)] untouched_derived[OF u(1)])
  finally show ?thesis .
qed

lemma verificarEstadoAtual_fst: "fst (verificarEstadoAtual s) = Inr ()"
  by (simp add: verificarEstadoAtual_def verificar_loop_fst)

lemma verificarEstadoAtual_effect:
  assumes "distinct (entityMetadatas (db s))" "t \<in> set (entityMetadatas (db s))"
  shows "tableCounters (snd (verificarEstadoAtual s)) t =
           (if CountFault \<in> faults (db s) t then tableCounters s t
            else Some (length (tables (db s) t) mod LIMITE_REGISTROS))"
    and "evictions t (snd (verificarEstadoAtual s)) = evictions t s + (if needs_eviction s t then 1 else 0)"
    and "counts t (snd (verificarEstadoAtual s)) = counts t s + 1"
    and "tables (db (snd (verificarEstadoAtual s))) t =
           (if needs_eviction s t \<and> QueryFault \<notin> faults (db s) t \<and> DeleteFault \<notin> faults (db s) t
            then survivors (db s) t else tables (db s) t)"
    and "removes t (snd (verificarEstadoAtual s)) = removes t s @
           (if needs_eviction s t \<and> QueryFault \<notin> faults (db s) t \<and> tables (db s) t \<noteq> []
            then [OpRemove t (map row_id (oldest (db s) t))] else [])"
  unfolding verificarEstadoAtual_def
  using verificar_loop_counter[OF assms] verificar_loop_evictions[OF assms] verificar_loop_counts[OF assms]
    verificar_loop_table[OF assms] verificar_loop_removes[OF assms]
  by blast+

lemma sample_needs_eviction:
  "needs_eviction (constructor (sample_db t (sample_rows n) fs)) t = (CountFault \<notin> fs \<and> 500 \<le> n)"
  by (simp add: needs_eviction_def sample_db_simps sample_rows_length LIMITE_REGISTROS_def)

lemma sample_enumerated:
  "distinct (entityMetadatas (db (constructor (sample_db t rs fs))))"
  "t \<in> set (entityMetadatas (db (constructor (sample_db t rs fs))))"
  by (simp_all add: sample_db_simps)

lemma count_list_replicate_same: "count_list (replicate n x) x = n"
  by (induction n) simp_all

lemma constructor_simps:
  "tableCounters (constructor d) = Map.empty" "db (constructor d) = d"
  by (simp_all add: constructor_def)

lemma counter_of_constructor: "counter_of (constructor d) t = 0"
  by (simp add: counter_of_def constructor_def)

section \<open>Counters stay below the limit\<close>

lemma exec_bounded:
  "(\<And>t c. tableCounters s t = Some c \<Longrightarrow> c < LIMITE_REGISTROS) \<Longrightarrow>
   tableCounters (exec evs s) t = Some c \<Longrightarrow> c < LIMITE_REGISTROS"
proof (induction evs arbitrary: s t c)
  case Nil
  then show ?case by simp
next
  case (Cons ev evs)
  have step: "\<And>t c. tableCounters (exec_event ev s) t = Some c \<Longrightarrow> c < LIMITE_REGISTROS"
  proof (cases ev)
    case (Inserted x)
    fix t c assume "tableCounters (exec_event ev s) t = Some c"
    then show "c < LIMITE_REGISTROS"
      using Cons.prems(1)[of t c] Inserted
      by (auto simp add: afterInsert_counters LIMITE_REGISTROS_def split: if_splits)
  next
    case Reconciled
    have loop: "\<And>es s t c. (\<And>t c. tableCounters s t = Some c \<Longrightarrow> c < LIMITE_REGISTROS) \<Longrightarrow>
        tableCounters (snd (verificar_loop es s)) t = Some c \<Longrightarrow> c < LIMITE_REGISTROS"
    proof -
      fix es s t c
      show "(\<And>t c. tableCounters s t = Some c \<Longrightarrow> c < LIMITE_REGISTROS) \<Longrightarrow>
        tableCounters (snd (verificar_loop es s)) t = Some c \<Longrightarrow> c < LIMITE_REGISTROS"
      proof (induction es arbitrary: s t c)
        case Nil
        then show ?case by simp
      next
        case (Cons e es)
        have "\<And>t c. tableCounters (snd (verificar_entity e s)) t = Some c \<Longrightarrow> c < LIMITE_REGISTROS"
          using Cons.prems(1)
          by (auto simp add: verificar_entity_counters LIMITE_REGISTROS_def split: if_splits)
        then show ?case
          using Cons.IH[of "snd (verificar_entity e s)" t c] Cons.prems(2)
          unfolding verificar_loop_step by blast
      qed
    qed
    fix t c assume "tableCounters (exec_event ev s) t = Some c"
    then show "c < LIMITE_REGISTROS"
      using loop[of s "entityMetadatas (db s)" t c] Cons.prems(1) Reconciled
      by (simp add: verificarEstadoAtual_def)
  next
    case (StoreChanged d)
    fix t c assume "tableCounters (exec_event ev s) t = Some c"
    then show "c < LIMITE_REGISTROS"
      using Cons.prems(1)[of t c] StoreChanged by simp
  qed
  show ?case
    using Cons.IH[of "exec_event ev s" t c] step Cons.prems(2) by simp
qed

text \<open>
  C7. In every state the service can reach from its construction (by insert notifications,
  reconciliation passes and arbitrary changes of the store in between), every counter is
  below 500. In particular \<^verbatim>\<open>afterInsert\<close>, once it has returned, leaves the counter of its
  table below 500 whatever the state before, and reconciliation seeds \<open>count mod 500\<close>.
  The value 500 exists only inside \<^verbatim>\<open>afterInsert\<close>, between its two writes of the counter.
\<close>

theorem counter_below_threshold:
  "(tableCounters (exec evs (constructor d)) t = Some c \<longrightarrow> c < 500)
   \<and> (tableCounters (snd (afterInsert t s)) t = Some c \<longrightarrow> c < 500)
   \<and> (CountFault \<notin> faults (db s) t \<longrightarrow>
        tableCounters (snd (verificar_entity t s)) t = Some (length (tables (db s) t) mod 500)
        \<and> length (tables (db s) t) mod 500 < 500)"
proof -
  have "tableCounters (exec evs (constructor d)) t = Some c \<Longrightarrow> c < LIMITE_REGISTROS"
    by (rule exec_bounded[of "constructor d" evs t c]) (simp_all add: constructor_simps)
  then show ?thesis
    by (auto simp add: afterInsert_counters verificar_entity_counters LIMITE_REGISTROS_def split: if_splits)
qed

theorem counter_below_threshold_witness:
  "tableCounters (exec [Inserted ''users'', Reconciled, Inserted ''users'']
      (constructor (sample_db ''users'' (sample_rows 499) {}))) ''users'' = Some 0
   \<and> (0::nat) < 500"
proof -
  let ?s = "constructor (sample_db ''users'' (sample_rows 499) {})"
  let ?s1 = "snd (afterInsert ''users'' ?s)"
  have d1: "db ?s1 = db ?s"
    by (simp add: afterInsert_db counter_of_def sample_db_simps LIMITE_REGISTROS_def)
  have 1: "tableCounters (snd (verificarEstadoAtual ?s1)) ''users'' = Some 499"
    using verificarEstadoAtual_effect(1)[of ?s1 "''users''"]
    by (simp add: d1 sample_db_simps sample_rows_length LIMITE_REGISTROS_def)
  have h: "tableCounters (exec [Inserted ''users'', Reconciled, Inserted ''users''] ?s) ''users'' = Some 0"
    using 1 by (simp add: afterInsert_counters counter_of_def LIMITE_REGISTROS_def)
  from counter_below_threshold[of "[Inserted ''users'', Reconciled, Inserted ''users'']"
      "sample_db ''users'' (sample_rows 499) {}" "''users''" 0 ?s] h
  show ?thesis by simp
qed

section \<open>Threshold trigger\<close>

lemma exec_counter_of: "counter_of (exec evs (constructor d)) t < LIMITE_REGISTROS"
proof (cases "tableCounters (exec evs (constructor d)) t")
  case None
  then show ?thesis by (simp add: counter_of_def LIMITE_REGISTROS_def)
next
  case (Some c)
  have "c < LIMITE_REGISTROS"
    by (rule exec_bounded[of "constructor d" evs t c]) (simp_all add: constructor_simps Some)
  then show ?thesis using Some by (simp add: counter_of_def)
qed

lemma run_inserts_other: "t \<notin> set es \<Longrightarrow> tableCounters (run_inserts es s) t = tableCounters s t"
  by (induction es arbitrary: s) (auto simp add: afterInsert_counters)

lemma run_inserts_map:
  "tableCounters (run_inserts es s) t =
     (if t \<in> set es then Some (counter_of (run_inserts es s) t) else tableCounters s t)"
  using run_inserts_dom[of es s t] run_inserts_other[of t es s]
  by (auto simp add: counter_of_def split: option.splits)

text \<open>
  C1, as the code has it. Let the service be in any state it can reach from its
  construction (by insert notifications, reconciliation passes and changes of the store),
  and let insert notifications then be delivered one at a time. After each of them, for
  every table, the counter equals the number of inserts observed since the last insert on
  which the table's eviction was invoked, counted from 0 at that insert and, as long as no
  insert has invoked the eviction, from the value the counter held before the first of
  these notifications (0 when it was absent, so that the first insert creates it at 1; the
  seed \<open>count mod 500\<close> after a reconciliation pass). With \<open>c\<close> that value, the counter
  after \<open>k\<close> inserts of the table is \<open>(c + k) mod 500\<close> and \<open>(c + k) div 500\<close> evictions have
  been invoked: the eviction is invoked exactly on the insert on which the counter reaches
  500 and on no earlier one. In every state one notification moves the counter from \<open>c\<close> to
  \<open>c + 1\<close> without invoking the eviction when \<open>c + 1 < 500\<close>, and invokes it once and
  leaves 0 otherwise.
\<close>

theorem threshold_trigger:
  "counter_of (run_inserts es (exec evs (constructor d))) t
     = since_trigger t es (exec evs (constructor d)) (counter_of (exec evs (constructor d)) t)
   \<and> counter_of (run_inserts es (exec evs (constructor d))) t
     = (counter_of (exec evs (constructor d)) t + count_list es t) mod 500
   \<and> evictions t (run_inserts es (exec evs (constructor d)))
     = evictions t (exec evs (constructor d))
       + (counter_of (exec evs (constructor d)) t + count_list es t) div 500
   \<and> counter_of (exec evs (constructor d)) t < 500
   \<and> tableCounters (run_inserts es (exec evs (constructor d))) t
     = (if t \<in> set es then Some (counter_of (run_inserts es (exec evs (constructor d))) t)
        else tableCounters (exec evs (constructor d)) t)
   \<and> counter_of (snd (afterInsert t s)) t = (if counter_of s t + 1 \<ge> 500 then 0 else counter_of s t + 1)
   \<and> evictions t (snd (afterInsert t s)) = evictions t s + (if counter_of s t + 1 \<ge> 500 then 1 else 0)
   \<and> (tableCounters s t = None \<longrightarrow> tableCounters (snd (afterInsert t s)) t = Some 1)"
proof -
  let ?S = "exec evs (constructor d)"
  have lt: "counter_of ?S t < LIMITE_REGISTROS"
    by (rule exec_counter_of)
  have st: "counter_of (run_inserts es ?S) t = since_trigger t es ?S (counter_of ?S t)"
    using since_trigger_eq[OF lt, of es] by simp
  have c: "counter_of (run_inserts es ?S) t = (counter_of ?S t + count_list es t) mod 500"
    using run_inserts_counter[OF lt, of es] by (simp add: LIMITE_REGISTROS_def)
  have e: "evictions t (run_inserts es ?S) = evictions t ?S + (counter_of ?S t + count_list es t) div 500"
    using run_inserts_evictions[OF lt, of es] by (simp add: LIMITE_REGISTROS_def)
  have b: "counter_of ?S t < 500"
    using lt by (simp add: LIMITE_REGISTROS_def)
  have m: "tableCounters (run_inserts es ?S) t =
     (if t \<in> set es then Some (counter_of (run_inserts es ?S) t) else tableCounters ?S t)"
    by (rule run_inserts_map)
  have s1: "counter_of (snd (afterInsert t s)) t = (if counter_of s t + 1 \<ge> 500 then 0 else counter_of s t + 1)"
    by (simp add: afterInsert_counter_of LIMITE_REGISTROS_def)
  have s2: "evictions t (snd (afterInsert t s)) = evictions t s + (if counter_of s t + 1 \<ge> 500 then 1 else 0)"
    by (simp add: afterInsert_evictions LIMITE_REGISTROS_def)
  have s3: "tableCounters s t = None \<longrightarrow> tableCounters (snd (afterInsert t s)) t = Some 1"
    by (simp add: afterInsert_counters counter_of_def LIMITE_REGISTROS_def)
  from st c e b m s1 s2 s3 show ?thesis by blast
qed

text \<open>
  The witness starts after a reconciliation pass has seeded 499 and crosses the limit: the
  first insert invokes the eviction and leaves 0, the second leaves 1.
\<close>

theorem threshold_trigger_witness:
  "counter_of (exec [Reconciled] (constructor (sample_db ''users'' (sample_rows 499) {}))) ''users'' = 499
   \<and> counter_of (run_inserts [''users'', ''articles'', ''users'']
        (exec [Reconciled] (constructor (sample_db ''users'' (sample_rows 499) {})))) ''users'' = 1
   \<and> evictions ''users'' (run_inserts [''users'', ''articles'', ''users'']
        (exec [Reconciled] (constructor (sample_db ''users'' (sample_rows 499) {})))) = 1
   \<and> since_trigger ''users'' [''users'', ''articles'', ''users'']
        (exec [Reconciled] (constructor (sample_db ''users'' (sample_rows 499) {}))) 499 = 1"
proof -
  let ?c = "constructor (sample_db ''users'' (sample_rows 499) {})"
  let ?S = "exec [Reconciled] ?c"
  let ?es = "[''users'', ''articles'', ''users'']"
  have n: "\<not> needs_eviction ?c ''users''"
    by (simp add: sample_needs_eviction)
  have k: "counter_of ?S ''users'' = 499"
    by (simp add: counter_of_def verificarEstadoAtual_effect(1)[OF sample_enumerated]
        sample_db_simps sample_rows_length LIMITE_REGISTROS_def)
  have e0: "evictions ''users'' ?S = 0"
  proof -
    have "evictions ''users'' ?c = 0"
      by (simp add: evictions_def sample_db_simps)
    then show ?thesis
      using n by (simp add: verificarEstadoAtual_effect(2)[OF sample_enumerated])
  qed
  have cl: "count_list ?es ''users'' = 2"
    by simp
  note T = threshold_trigger[of ?es "[Reconciled]" "sample_db ''users'' (sample_rows 499) {}" "''users''" ?c]
  have 1: "counter_of (run_inserts ?es ?S) ''users'' = (counter_of ?S ''users'' + count_list ?es ''users'') mod 500"
    using T by blast
  have 2: "evictions ''users'' (run_inserts ?es ?S)
      = evictions ''users'' ?S + (counter_of ?S ''users'' + count_list ?es ''users'') div 500"
    using T by blast
  have 3: "counter_of (run_inserts ?es ?S) ''users'' = since_trigger ''users'' ?es ?S (counter_of ?S ''users'')"
    using T by blast
  have a: "counter_of (run_inserts ?es ?S) ''users'' = 1"
    unfolding 1 k cl by simp
  have b: "evictions ''users'' (run_inserts ?es ?S) = 1"
    unfolding 2 k cl e0 by simp
  have c: "since_trigger ''users'' ?es ?S 499 = 1"
    using 3 a unfolding k by simp
  from k a b c show ?thesis by blast
qed

text \<open>
  Against C1 as stated: the service is constructed over a table of 3 rows and the startup
  reconciliation pass runs, invoking no eviction and seeding the counter with 3. After the
  first insert notification the counter is 4, while one insert has been observed and no
  eviction was ever triggered.
\<close>

theorem seeded_counter_exceeds_inserts_observed:
  "evictions ''users''
      (snd (afterInsert ''users''
         (snd (verificarEstadoAtual (constructor (sample_db ''users'' (sample_rows 3) {})))))) = 0
   \<and> tableCounters
      (snd (afterInsert ''users''
         (snd (verificarEstadoAtual (constructor (sample_db ''users'' (sample_rows 3) {}))))))
      ''users'' = Some 4
   \<and> since_trigger ''users'' [''users'']
      (snd (verificarEstadoAtual (constructor (sample_db ''users'' (sample_rows 3) {})))) 0 = 1
   \<and> count_list [''users''] ''users'' = 1"
proof -
  let ?c = "constructor (sample_db ''users'' (sample_rows 3) {})"
  let ?S = "snd (verificarEstadoAtual ?c)"
  have n: "\<not> needs_eviction ?c ''users''"
    by (simp add: sample_needs_eviction)
  have t3: "tableCounters ?S ''users'' = Some 3"
    by (simp add: verificarEstadoAtual_effect(1)[OF sample_enumerated]
        sample_db_simps sample_rows_length LIMITE_REGISTROS_def)
  have k: "counter_of ?S ''users'' = 3"
    using t3 by (simp add: counter_of_def)
  have e0: "evictions ''users'' ?S = 0"
  proof -
    have "evictions ''users'' ?c = 0"
      by (simp add: evictions_def sample_db_simps)
    then show ?thesis
      using n by (simp add: verificarEstadoAtual_effect(2)[OF sample_enumerated])
  qed
  have e1: "evictions ''users'' (snd (afterInsert ''users'' ?S)) = 0"
    using e0 k by (simp add: afterInsert_evictions LIMITE_REGISTROS_def)
  have c4: "tableCounters (snd (afterInsert ''users'' ?S)) ''users'' = Some 4"
    using k by (simp add: afterInsert_counters LIMITE_REGISTROS_def)
  have st: "since_trigger ''users'' [''users''] ?S 0 = 1"
    using e0 e1 by (simp add: Let_def)
  from e1 c4 st show ?thesis by simp
qed

section \<open>Reconciliation seeding\<close>

text \<open>
  C4. A table that is enumerated once, holds 1240 rows at startup and whose count can be
  read: the reconciliation pass invokes the eviction for it exactly once, issues at most
  one delete and removes at most 250 rows, and then sets its counter to
  \<open>1240 mod 500 = 240\<close>, the count read before the eviction; when the eviction succeeds
  990 rows are left, and 240 is not \<open>990 mod 500\<close>.
\<close>

theorem reconciliation_seeding:
  assumes "length (tables (db s) t) = 1240"
    and "CountFault \<notin> faults (db s) t"
    and "distinct (entityMetadatas (db s))" and "t \<in> set (entityMetadatas (db s))"
    and "wf_table (tables (db s) t)"
  shows "evictions t (snd (verificarEstadoAtual s)) = evictions t s + 1
       \<and> length (removes t (snd (verificarEstadoAtual s))) \<le> length (removes t s) + 1
       \<and> card (removed_rows t s (snd (verificarEstadoAtual s))) \<le> 250
       \<and> tableCounters (snd (verificarEstadoAtual s)) t = Some 240
       \<and> (QueryFault \<notin> faults (db s) t \<and> DeleteFault \<notin> faults (db s) t \<longrightarrow>
            length (tables (db (snd (verificarEstadoAtual s))) t) = 990)"
proof -
  have n: "needs_eviction s t"
    using assms(1,2) by (simp add: needs_eviction_def LIMITE_REGISTROS_def)
  have c: "card (set (oldest (db s) t)) = 250"
    using distinct_card[OF oldest_distinct[OF assms(5)]] assms(1)
    by (simp add: oldest_length REGISTROS_PARA_REMOVER_def)
  have r: "removed_rows t s (snd (verificarEstadoAtual s)) =
      (if QueryFault \<notin> faults (db s) t \<and> DeleteFault \<notin> faults (db s) t then set (oldest (db s) t) else {})"
    using survivors_removed[OF assms(5)] n
    by (simp add: removed_rows_def verificarEstadoAtual_effect(4)[OF assms(3,4)])
  have l: "length (survivors (db s) t) = 990"
    using survivors_length[OF assms(5)] assms(1) by (simp add: REGISTROS_PARA_REMOVER_def)
  show ?thesis
    using n c l
    by (simp add: r verificarEstadoAtual_effect[OF assms(3,4)] assms(1,2) LIMITE_REGISTROS_def)
qed

theorem reconciliation_seeding_witness:
  "length (tables (db (constructor (sample_db ''users'' (sample_rows 1240) {}))) ''users'') = 1240
   \<and> evictions ''users'' (snd (verificarEstadoAtual (constructor (sample_db ''users'' (sample_rows 1240) {})))) = 1
   \<and> tableCounters (snd (verificarEstadoAtual (constructor (sample_db ''users'' (sample_rows 1240) {}))))
        ''users'' = Some 240"
proof -
  let ?s = "constructor (sample_db ''users'' (sample_rows 1240) {})"
  have l: "length (tables (db ?s) ''users'') = 1240"
    by (simp add: sample_db_simps sample_rows_length)
  have f: "CountFault \<notin> faults (db ?s) ''users''"
    by (simp add: sample_db_simps)
  have w: "wf_table (tables (db ?s) ''users'')"
    by (simp add: sample_db_simps sample_rows_wf)
  have e: "evictions ''users'' ?s = 0"
    by (simp add: evictions_def sample_db_simps)
  from reconciliation_seeding[OF l f sample_enumerated w] e l show ?thesis by simp
qed

section \<open>The counter after an eviction attempt\<close>

text \<open>
  C5, as the code has it. When an insert triggers the eviction, the counter of the table
  is 0 once the handler has returned, whether the query and the delete succeeded or failed.
  When the reconciliation pass triggers it, the counter afterwards is the row count read
  before the eviction modulo 500, again whatever the outcome of the eviction.
\<close>

theorem counter_after_eviction:
  "(500 \<le> counter_of s t + 1 \<longrightarrow>
      evictions t (snd (afterInsert t s)) = evictions t s + 1
      \<and> tableCounters (snd (afterInsert t s)) t = Some 0)
   \<and> (needs_eviction s t \<longrightarrow>
      evictions t (snd (verificar_entity t s)) = evictions t s + 1
      \<and> tableCounters (snd (verificar_entity t s)) t = Some (length (tables (db s) t) mod 500))"
proof -
  have a: "500 \<le> counter_of s t + 1 \<Longrightarrow>
      evictions t (snd (afterInsert t s)) = evictions t s + 1
      \<and> tableCounters (snd (afterInsert t s)) t = Some 0"
    using afterInsert_evictions[of t t s] afterInsert_counters[of t s]
    by (simp add: LIMITE_REGISTROS_def)
  have b: "needs_eviction s t \<Longrightarrow>
      evictions t (snd (verificar_entity t s)) = evictions t s + 1
      \<and> tableCounters (snd (verificar_entity t s)) t = Some (length (tables (db s) t) mod 500)"
    using verificar_entity_calls[of t s] verificar_entity_counters[of t s]
    by (simp add: evictions_def needs_eviction_def LIMITE_REGISTROS_def)
  from a b show ?thesis by blast
qed

theorem counter_after_eviction_witness:
  "500 \<le> counter_of (run_inserts (replicate 499 ''users'') (constructor (sample_db ''users'' [] {DeleteFault}))) ''users'' + 1
   \<and> tableCounters (snd (afterInsert ''users''
        (run_inserts (replicate 499 ''users'') (constructor (sample_db ''users'' [] {DeleteFault}))))) ''users''
      = Some 0
   \<and> needs_eviction (constructor (sample_db ''users'' (sample_rows 750) {QueryFault})) ''users''
   \<and> tableCounters (snd (verificar_entity ''users'' (constructor (sample_db ''users'' (sample_rows 750) {QueryFault}))))
        ''users'' = Some 250"
proof -
  let ?s = "run_inserts (replicate 499 ''users'') (constructor (sample_db ''users'' [] {DeleteFault}))"
  let ?r = "constructor (sample_db ''users'' (sample_rows 750) {QueryFault})"
  have "counter_of (constructor (sample_db ''users'' [] {DeleteFault})) ''users'' < LIMITE_REGISTROS"
    by (simp add: counter_of_constructor LIMITE_REGISTROS_def)
  from run_inserts_counter[OF this, of "replicate 499 ''users''"]
  have c: "counter_of ?s ''users'' = 499"
    by (simp add: counter_of_constructor LIMITE_REGISTROS_def count_list_replicate_same)
  have n: "needs_eviction ?r ''users''"
    by (simp add: sample_needs_eviction)
  have l: "length (tables (db ?r) ''users'') = 750"
    by (simp add: sample_db_simps sample_rows_length)
  from counter_after_eviction[of ?s "''users''"] counter_after_eviction[of ?r "''users''"] c n l
  show ?thesis by simp
qed

text \<open>
  Against C5 as stated: a table of 750 rows is evicted once by the reconciliation pass,
  and its counter afterwards is \<open>750 mod 500 = 250\<close>, not 0.
\<close>

theorem counter_after_reconciliation_eviction_nonzero:
  "evictions ''users'' (snd (verificarEstadoAtual (constructor (sample_db ''users'' (sample_rows 750) {})))) = 1
   \<and> tableCounters (snd (verificarEstadoAtual (constructor (sample_db ''users'' (sample_rows 750) {}))))
        ''users'' = Some 250
   \<and> tableCounters (snd (verificarEstadoAtual (constructor (sample_db ''users'' (sample_rows 750) {}))))
        ''users'' \<noteq> Some 0"
proof -
  let ?s = "constructor (sample_db ''users'' (sample_rows 750) {})"
  have e: "evictions ''users'' ?s = 0"
    by (simp add: evictions_def sample_db_simps)
  show ?thesis
    using e
    by (simp add: verificarEstadoAtual_effect[OF sample_enumerated] sample_needs_eviction
        sample_db_simps sample_rows_length LIMITE_REGISTROS_def)
qed

section \<open>The row count after an eviction\<close>

text \<open>
  C6, as the code has it. Immediately after an eviction whose query and delete succeed,
  triggered by an insert or by the reconciliation pass, with no insert racing it, a table
  that held \<open>n\<close> rows (with distinct primary keys) holds \<open>n - min 250 n\<close>: one batch is
  removed, once. That is \<open>500 - 250 = 250\<close> or lower when \<open>n\<close> is at most 500.
\<close>

theorem row_count_after_eviction:
  assumes "wf_table (tables (db s) t)"
    and "QueryFault \<notin> faults (db s) t" and "DeleteFault \<notin> faults (db s) t"
  shows "(500 \<le> counter_of s t + 1 \<longrightarrow>
            length (tables (db (snd (afterInsert t s))) t)
              = length (tables (db s) t) - min 250 (length (tables (db s) t))
            \<and> (length (tables (db s) t) \<le> 500 \<longrightarrow>
                 length (tables (db (snd (afterInsert t s))) t) \<le> 500 - 250))
       \<and> (needs_eviction s t \<longrightarrow>
            length (tables (db (snd (verificar_entity t s))) t)
              = length (tables (db s) t) - min 250 (length (tables (db s) t))
            \<and> (length (tables (db s) t) \<le> 500 \<longrightarrow>
                 length (tables (db (snd (verificar_entity t s))) t) \<le> 500 - 250))"
proof -
  have l: "length (survivors (db s) t) = length (tables (db s) t) - min 250 (length (tables (db s) t))"
    using survivors_length[OF assms(1)] by (simp add: REGISTROS_PARA_REMOVER_def)
  have a: "500 \<le> counter_of s t + 1 \<Longrightarrow> tables (db (snd (afterInsert t s))) t = survivors (db s) t"
    using afterInsert_tables[of t s] assms(2,3) by (simp add: LIMITE_REGISTROS_def)
  have b: "needs_eviction s t \<Longrightarrow> tables (db (snd (verificar_entity t s))) t = survivors (db s) t"
    using verificar_entity_tables[of t s] assms(2,3) by simp
  have c: "length (tables (db s) t) \<le> 500 \<Longrightarrow>
      length (tables (db s) t) - min 250 (length (tables (db s) t)) \<le> 500 - 250"
    by simp
  show ?thesis
    using a b c l by presburger
qed

theorem row_count_after_eviction_witness:
  "wf_table (tables (db (constructor (sample_db ''users'' (sample_rows 500) {}))) ''users'')
   \<and> needs_eviction (constructor (sample_db ''users'' (sample_rows 500) {})) ''users''
   \<and> length (tables (db (snd (verificar_entity ''users''
        (constructor (sample_db ''users'' (sample_rows 500) {}))))) ''users'') = 250"
proof -
  let ?s = "constructor (sample_db ''users'' (sample_rows 500) {})"
  have w: "wf_table (tables (db ?s) ''users'')"
    by (simp add: sample_db_simps sample_rows_wf)
  have q: "QueryFault \<notin> faults (db ?s) ''users''" and d: "DeleteFault \<notin> faults (db ?s) ''users''"
    by (simp_all add: sample_db_simps)
  have n: "needs_eviction ?s ''users''"
    by (simp add: sample_needs_eviction)
  have l: "length (tables (db ?s) ''users'') = 500"
    by (simp add: sample_db_simps sample_rows_length)
  from row_count_after_eviction[OF w q d] n l show ?thesis using w by simp
qed

text \<open>
  Against C6 as stated: a table of 1240 rows is evicted once by the reconciliation pass,
  which succeeds and leaves 990 rows, more than \<open>500 - 250\<close>; and a table of 500 rows
  whose delete fails is evicted once and still holds 500 rows.
\<close>

theorem row_count_after_reconciliation_eviction_above_floor:
  "evictions ''articles'' (snd (verificarEstadoAtual (constructor (sample_db ''articles'' (sample_rows 1240) {})))) = 1
   \<and> length (tables (db (snd (verificarEstadoAtual
        (constructor (sample_db ''articles'' (sample_rows 1240) {}))))) ''articles'') = 990
   \<and> \<not> length (tables (db (snd (verificarEstadoAtual
        (constructor (sample_db ''articles'' (sample_rows 1240) {}))))) ''articles'') \<le> 500 - 250
   \<and> evictions ''articles''
        (snd (verificarEstadoAtual (constructor (sample_db ''articles'' (sample_rows 500) {DeleteFault})))) = 1
   \<and> length (tables (db (snd (verificarEstadoAtual
        (constructor (sample_db ''articles'' (sample_rows 500) {DeleteFault}))))) ''articles'') = 500"
proof -
  let ?s = "constructor (sample_db ''articles'' (sample_rows 1240) {})"
  let ?f = "constructor (sample_db ''articles'' (sample_rows 500) {DeleteFault})"
  have e: "evictions ''articles'' ?s = 0" "evictions ''articles'' ?f = 0"
    by (simp_all add: evictions_def sample_db_simps)
  have w: "wf_table (tables (db ?s) ''articles'')"
    by (simp add: sample_db_simps sample_rows_wf)
  have l: "length (survivors (db ?s) ''articles'') = 990"
    using survivors_length[OF w] by (simp add: sample_db_simps sample_rows_length REGISTROS_PARA_REMOVER_def)
  have 1: "evictions ''articles'' (snd (verificarEstadoAtual ?s)) = 1
      \<and> length (tables (db (snd (verificarEstadoAtual ?s))) ''articles'') = 990"
    using e(1) l
    by (simp add: verificarEstadoAtual_effect[OF sample_enumerated] sample_needs_eviction sample_db_simps)
  have 2: "evictions ''articles'' (snd (verificarEstadoAtual ?f)) = 1
      \<and> length (tables (db (snd (verificarEstadoAtual ?f))) ''articles'') = 500"
    using e(2)
    by (simp add: verificarEstadoAtual_effect[OF sample_enumerated] sample_needs_eviction sample_db_simps
        sample_rows_length)
  show ?thesis
    using 1 2 by simp
qed

section \<open>Failures are recovered where they occur\<close>

lemma limpar_query_failure:
  "QueryFault \<in> faults (db s) t \<Longrightarrow>
   limparRegistrosAntigos t s =
     (Inr (), s\<lparr>db := (db s)\<lparr>calls := calls (db s) @ [OpGetMany t 250]\<rparr>,
               log := log s @ [(ERROR, ErroAoLimpar t QueryFailed)]\<rparr>)"
  by (simp add: limparRegistrosAntigos_def limpar_try_def repo_defs logger_defs Let_def
      REGISTROS_PARA_REMOVER_def)

lemma limpar_delete_failure:
  "QueryFault \<notin> faults (db s) t \<Longrightarrow> DeleteFault \<in> faults (db s) t \<Longrightarrow> tables (db s) t \<noteq> [] \<Longrightarrow>
   limparRegistrosAntigos t s =
     (Inr (), s\<lparr>db := (db s)\<lparr>calls := calls (db s) @
                          [OpGetMany t 250, OpRemove t (map row_id (oldest (db s) t))]\<rparr>,
               log := log s @ [(ERROR, ErroAoLimpar t DeleteFailed)]\<rparr>)"
  by (simp add: limparRegistrosAntigos_def limpar_try_def repo_defs logger_defs Let_def oldest_def
      REGISTROS_PARA_REMOVER_def)

lemma verificar_count_failure:
  "CountFault \<in> faults (db s) t \<Longrightarrow>
   verificar_entity t s =
     (Inr (), s\<lparr>db := (db s)\<lparr>calls := calls (db s) @ [OpCount t]\<rparr>,
               log := log s @ [(ERROR, ErroAoVerificar t CountFailed)]\<rparr>)"
  by (simp add: verificar_entity_def verificar_try_unfold logger_defs)

text \<open>
  C8. Each of the three failures is caught where it occurs. A failed query, a failed
  delete and a failed count each leave exactly the state before plus the record of the one
  call that failed (the query, the query and the delete, the count: nothing is repeated)
  and one ERROR log entry that names the table; tables and counters are as before. No
  method of the service lets an exception out: the eviction, the insert handler and the
  reconciliation pass all return normally in every state.
\<close>

theorem failures_recovered_locally:
  "(QueryFault \<in> faults (db s) t \<longrightarrow>
      limparRegistrosAntigos t s =
        (Inr (), s\<lparr>db := (db s)\<lparr>calls := calls (db s) @ [OpGetMany t 250]\<rparr>,
                  log := log s @ [(ERROR, ErroAoLimpar t QueryFailed)]\<rparr>))
   \<and> (QueryFault \<notin> faults (db s) t \<and> DeleteFault \<in> faults (db s) t \<and> tables (db s) t \<noteq> [] \<longrightarrow>
      limparRegistrosAntigos t s =
        (Inr (), s\<lparr>db := (db s)\<lparr>calls := calls (db s) @
                             [OpGetMany t 250, OpRemove t (map row_id (oldest (db s) t))]\<rparr>,
                  log := log s @ [(ERROR, ErroAoLimpar t DeleteFailed)]\<rparr>))
   \<and> (CountFault \<in> faults (db s) t \<longrightarrow>
      verificar_entity t s =
        (Inr (), s\<lparr>db := (db s)\<lparr>calls := calls (db s) @ [OpCount t]\<rparr>,
                  log := log s @ [(ERROR, ErroAoVerificar t CountFailed)]\<rparr>))
   \<and> message_table (ErroAoLimpar t e) = Some t \<and> message_table (ErroAoVerificar t e) = Some t
   \<and> fst (limparRegistrosAntigos t s) = Inr ()
   \<and> fst (afterInsert t s) = Inr ()
   \<and> fst (verificarEstadoAtual s) = Inr ()"
  using limpar_query_failure[of s t] limpar_delete_failure[of s t] verificar_count_failure[of s t]
    limpar_fst[of t s] afterInsert_fst[of t s] verificarEstadoAtual_fst[of s]
  by simp

theorem failures_recovered_locally_witness:
  "QueryFault \<in> faults (db (constructor (sample_db ''users'' (sample_rows 2) {QueryFault}))) ''users''
   \<and> errors_logged (snd (limparRegistrosAntigos ''users''
        (constructor (sample_db ''users'' (sample_rows 2) {QueryFault}))))
      = [(ERROR, ErroAoLimpar ''users'' QueryFailed)]
   \<and> calls (db (snd (limparRegistrosAntigos ''users''
        (constructor (sample_db ''users'' (sample_rows 2) {QueryFault})))))
      = [OpGetMany ''users'' 250]"
proof -
  let ?s = "constructor (sample_db ''users'' (sample_rows 2) {QueryFault})"
  have f: "QueryFault \<in> faults (db ?s) ''users''"
    by (simp add: sample_db_simps)
  have "limparRegistrosAntigos ''users'' ?s =
        (Inr (), ?s\<lparr>db := (db ?s)\<lparr>calls := calls (db ?s) @ [OpGetMany ''users'' 250]\<rparr>,
                  log := log ?s @ [(ERROR, ErroAoLimpar ''users'' QueryFailed)]\<rparr>)"
    using failures_recovered_locally[of ?s "''users''" QueryFailed] f by blast
  then show ?thesis
    using f by (simp add: errors_logged_def constructor_def sample_db_def logger_defs)
qed

section \<open>Eviction on an empty table\<close>

text \<open>
  C9. On an empty table the eviction removes no row, issues no delete against the store
  and returns normally; when its query succeeds the only trace it leaves is the record of
  that query: the table, the counters and the log are as before, so no error is logged.
\<close>

theorem evict_empty_table:
  assumes "tables (db s) t = []"
  shows "fst (limparRegistrosAntigos t s) = Inr ()
       \<and> tables (db (snd (limparRegistrosAntigos t s))) = tables (db s)
       \<and> removed_rows t s (snd (limparRegistrosAntigos t s)) = {}
       \<and> removes t (snd (limparRegistrosAntigos t s)) = removes t s
       \<and> (QueryFault \<notin> faults (db s) t \<longrightarrow>
            limparRegistrosAntigos t s =
              (Inr (), s\<lparr>db := (db s)\<lparr>calls := calls (db s) @ [OpGetMany t 250]\<rparr>\<rparr>))"
proof -
  have o: "oldest (db s) t = []"
    using assms by (simp add: oldest_def)
  have 1: "tables (db (snd (limparRegistrosAntigos t s))) = tables (db s)"
    using assms o by (auto simp add: limpar_tables)
  have 2: "removes t (snd (limparRegistrosAntigos t s)) = removes t s"
    using assms by (simp add: removes_def limpar_calls)
  have 3: "QueryFault \<notin> faults (db s) t \<Longrightarrow>
      limparRegistrosAntigos t s =
        (Inr (), s\<lparr>db := (db s)\<lparr>calls := calls (db s) @ [OpGetMany t 250]\<rparr>\<rparr>)"
    using assms
    by (simp add: limparRegistrosAntigos_def limpar_try_def repo_defs Let_def REGISTROS_PARA_REMOVER_def)
  show ?thesis
    using 1 2 3 assms by (simp add: limpar_fst removed_rows_def)
qed

theorem evict_empty_table_witness:
  "tables (db (constructor (sample_db ''categories'' [] {}))) ''categories'' = []
   \<and> limparRegistrosAntigos ''categories'' (constructor (sample_db ''categories'' [] {})) =
       (Inr (), (constructor (sample_db ''categories'' [] {}))
                  \<lparr>db := (sample_db ''categories'' [] {})\<lparr>calls := [OpGetMany ''categories'' 250]\<rparr>\<rparr>)"
proof -
  let ?s = "constructor (sample_db ''categories'' [] {})"
  have h: "tables (db ?s) ''categories'' = []"
    by (simp add: sample_db_simps)
  have f: "QueryFault \<notin> faults (db ?s) ''categories''"
    by (simp add: sample_db_simps)
  have "limparRegistrosAntigos ''categories'' ?s =
      (Inr (), ?s\<lparr>db := (db ?s)\<lparr>calls := calls (db ?s) @ [OpGetMany ''categories'' 250]\<rparr>\<rparr>)"
    using evict_empty_table[OF h] f by blast
  then show ?thesis
    using h by (simp add: constructor_def sample_db_def)
qed

section \<open>A count that fails during reconciliation\<close>

text \<open>
  C10. When the count of a table fails during the reconciliation pass (the tables being
  enumerated without repetition), that table's counter and rows are as before, and neither
  an eviction nor a delete is issued for it. The pass still reaches every enumerated
  table: the count of each is queried once, and each table whose count can be read is
  seeded with its count modulo 500 and evicted once if the count has reached 500.
\<close>

theorem count_failure_skips_table:
  assumes "CountFault \<in> faults (db s) t"
    and "distinct (entityMetadatas (db s))" and "t \<in> set (entityMetadatas (db s))"
  shows "tableCounters (snd (verificarEstadoAtual s)) t = tableCounters s t
       \<and> evictions t (snd (verificarEstadoAtual s)) = evictions t s
       \<and> removes t (snd (verificarEstadoAtual s)) = removes t s
       \<and> tables (db (snd (verificarEstadoAtual s))) t = tables (db s) t
       \<and> (\<forall>e \<in> set (entityMetadatas (db s)).
            counts e (snd (verificarEstadoAtual s)) = counts e s + 1
            \<and> (CountFault \<notin> faults (db s) e \<longrightarrow>
                 tableCounters (snd (verificarEstadoAtual s)) e
                   = Some (length (tables (db s) e) mod 500)
                 \<and> evictions e (snd (verificarEstadoAtual s))
                   = evictions e s + (if 500 \<le> length (tables (db s) e) then 1 else 0)))"
proof -
  have n: "\<not> needs_eviction s t"
    using assms(1) by (simp add: needs_eviction_def)
  have own: "tableCounters (snd (verificarEstadoAtual s)) t = tableCounters s t
       \<and> evictions t (snd (verificarEstadoAtual s)) = evictions t s
       \<and> removes t (snd (verificarEstadoAtual s)) = removes t s
       \<and> tables (db (snd (verificarEstadoAtual s))) t = tables (db s) t"
    using n assms(1) by (simp add: verificarEstadoAtual_effect[OF assms(2,3)])
  have others: "counts e (snd (verificarEstadoAtual s)) = counts e s + 1
            \<and> (CountFault \<notin> faults (db s) e \<longrightarrow>
                 tableCounters (snd (verificarEstadoAtual s)) e
                   = Some (length (tables (db s) e) mod 500)
                 \<and> evictions e (snd (verificarEstadoAtual s))
                   = evictions e s + (if 500 \<le> length (tables (db s) e) then 1 else 0))"
    if "e \<in> set (entityMetadatas (db s))" for e
    by (simp add: verificarEstadoAtual_effect[OF assms(2) that] needs_eviction_def LIMITE_REGISTROS_def)
  show ?thesis
    using own others by blast
qed

theorem count_failure_skips_table_witness:
  "CountFault \<in> faults (db (constructor sample_db2)) ''users''
   \<and> tableCounters (snd (verificarEstadoAtual (constructor sample_db2))) ''users'' = None
   \<and> evictions ''users'' (snd (verificarEstadoAtual (constructor sample_db2))) = 0
   \<and> tableCounters (snd (verificarEstadoAtual (constructor sample_db2))) ''articles'' = Some 3"
proof -
  let ?s = "constructor sample_db2"
  have f: "CountFault \<in> faults (db ?s) ''users''"
    by (simp add: constructor_def sample_db2_def)
  have d: "distinct (entityMetadatas (db ?s))"
    by (simp add: constructor_def sample_db2_def)
  have m: "''users'' \<in> set (entityMetadatas (db ?s))"
    by (simp add: constructor_def sample_db2_def)
  have a: "''articles'' \<in> set (entityMetadatas (db ?s))"
    by (simp add: constructor_def sample_db2_def)
  have g: "CountFault \<notin> faults (db ?s) ''articles''"
    by (simp add: constructor_def sample_db2_def)
  have l: "length (tables (db ?s) ''articles'') = 3"
    by (simp add: constructor_def sample_db2_def sample_rows_length)
  have c: "tableCounters ?s ''users'' = None" and e: "evictions ''users'' ?s = 0"
    by (simp_all add: constructor_def sample_db2_def evictions_def)
  note T = count_failure_skips_table[OF f d m]
  have 1: "tableCounters (snd (verificarEstadoAtual ?s)) ''users'' = None"
    using T c by simp
  have 2: "evictions ''users'' (snd (verificarEstadoAtual ?s)) = 0"
    using T e by simp
  have 3: "tableCounters (snd (verificarEstadoAtual ?s)) ''articles'' = Some (length (tables (db ?s) ''articles'') mod 500)"
    using T a g by blast
  show ?thesis
    using f 1 2 3 l by simp
qed

end
